theory Spec2Isabelle
  imports Complex_Main
begin

section \<open>JavaScript values used by gatsby-node.js\<close>

text \<open>
  Numbers interpolated into a template literal (\<^verbatim>\<open>`${i + 1}`\<close>) are rendered in
  decimal. Only non-negative integers are rendered by the code.
\<close>

definition digit :: "nat \<Rightarrow> char" where
  "digit d = ''0123456789'' ! d"

fun toString :: "nat \<Rightarrow> string" where
  "toString n = (if n < 10 then [digit n] else toString (n div 10) @ [digit (n mod 10)])"

declare toString.simps [simp del]

text \<open>
  Truthiness of a value that is a string, \<^verbatim>\<open>null\<close> or \<^verbatim>\<open>undefined\<close>:
  \<open>None\<close> stands for \<^verbatim>\<open>null\<close>/\<^verbatim>\<open>undefined\<close>; the empty string is falsy too.
\<close>

fun truthy :: "string option \<Rightarrow> bool" where
  "truthy None = False"
| "truthy (Some s) = (s \<noteq> [])"

section \<open>Page creation (\<^verbatim>\<open>exports.createPages\<close>)\<close>

subsection \<open>Data\<close>

datatype template = StaticPageTemplate | MediaListTemplate | MediaPageTemplate | NewsListTemplate

datatype ctxval = CStr string | CNum nat

text \<open>The argument of \<^verbatim>\<open>createPage\<close>: path, component and the context object literal.\<close>

record page =
  path :: string
  component :: template
  ctx :: "(string \<times> ctxval) list"

datatype level = LError | LWarn

text \<open>
  A console call: level, message, and the extra argument: the query errors if any
  (\<open>Log\<close>), or a value that may be \<^verbatim>\<open>undefined\<close> (\<open>LogValue\<close>).
\<close>

datatype log = Log level string "string list" | LogValue level string "string option"

text \<open>What the build has seen so far: the pages registered and the console output.\<close>

record build =
  created :: "page list"
  console :: "log list"

text \<open>Error objects: \<^verbatim>\<open>new Error(message)\<close> and the engine's \<^verbatim>\<open>TypeError\<close>.\<close>

datatype error = Error string | TypeError string

datatype outcome = Returned | Raised error

text \<open>Query results, as far as the code reads them.\<close>

record navigation_t =
  link :: "string option"

record page_node =
  navigation :: "navigation_t option"

record fields_t =
  slug :: string
  externalLink :: "string option"

record remark_node =
  node_fields :: fields_t

record qresult =
  errors :: "string list option"
  allPagesJson :: "page_node list"
  allMarkdownRemark :: "remark_node list"

text \<open>
  The three query texts: all pages, and all markdown items whose frontmatter type is
  the given media type, by date descending.
\<close>

datatype query = AllPagesJson | AllMarkdownRemark string

subsection \<open>The phases\<close>

definition createPage :: "page \<Rightarrow> build \<Rightarrow> build" where
  "createPage p b = b\<lparr>created := created b @ [p]\<rparr>"

definition console_log :: "log \<Rightarrow> build \<Rightarrow> build" where
  "console_log l b = b\<lparr>console := console b @ [l]\<rparr>"

text \<open>
  \<^verbatim>\<open>Math.ceil(n / p)\<close> for an array length \<open>n\<close>: the quotient of two such integers is
  either an integer or at least \<open>1/p\<close> away from one, so the double division does not
  change the ceiling (see \<open>Math_ceil_real\<close> below).
\<close>

definition Math_ceil :: "nat \<Rightarrow> nat \<Rightarrow> nat" where
  "Math_ceil n p = (n + p - 1) div p"

definition staticPage :: "string \<Rightarrow> page" where
  "staticPage l = \<lparr>path = l, component = StaticPageTemplate, ctx = [(''link'', CStr l)]\<rparr>"

definition staticPageStep :: "nat \<times> page_node \<Rightarrow> build \<Rightarrow> build" where
  "staticPageStep ip b =
     (case ip of (i, p) \<Rightarrow>
        (case navigation p of
           None \<Rightarrow>
             console_log (Log LWarn (''Page '' @ toString i @ '' is missing navigation link, skipping'') []) b
         | Some nav \<Rightarrow>
             if \<not> truthy (link nav)
             then console_log (Log LWarn (''Page '' @ toString i @ '' is missing navigation link, skipping'') []) b
             else createPage (staticPage (the (link nav))) b))"

definition mediaTypes :: "(string \<times> string) list" where
  "mediaTypes = [(''announcements'', ''Announcements''), (''blog'', ''Blog'')]"

definition pageSize :: nat where
  "pageSize = 10"

definition mediaListPage :: "string \<Rightarrow> string \<Rightarrow> nat \<Rightarrow> nat \<Rightarrow> page" where
  "mediaListPage mediaType title numPages i =
     \<lparr>path = (if i = 0 then ''/media/'' @ mediaType
              else ''/media/'' @ mediaType @ ''/'' @ toString (i + 1)),
      component = MediaListTemplate,
      ctx = [(''limit'', CNum pageSize),
             (''skip'', CNum (i * pageSize)),
             (''mediaType'', CStr mediaType),
             (''title'', CStr title),
             (''numPages'', CNum numPages),
             (''currentPage'', CNum (i + 1)),
             (''basePage'', CStr (''/media/'' @ mediaType)),
             (''link'', CStr (''/media/'' @ mediaType @ (if i > 0 then ''/'' @ toString (i + 1) else '''')))]\<rparr>"

definition mediaPage :: "string \<Rightarrow> remark_node \<Rightarrow> page" where
  "mediaPage mediaType r =
     \<lparr>path = ''/media/'' @ mediaType @ ''/'' @ slug (node_fields r),
      component = MediaPageTemplate,
      ctx = [(''slug'', CStr (slug (node_fields r))),
             (''link'', CStr (''/media/'' @ mediaType @ ''/'' @ slug (node_fields r))),
             (''mediaType'', CStr mediaType)]\<rparr>"

text \<open>The list pages of one media type: the loop \<^verbatim>\<open>for (i = 0; i < numPages; i++)\<close>.\<close>

definition mediaListPages :: "string \<Rightarrow> string \<Rightarrow> remark_node list \<Rightarrow> page list" where
  "mediaListPages mediaType title results =
     (let numPages = Math_ceil (length results) pageSize
      in map (mediaListPage mediaType title numPages) [0..<numPages])"

text \<open>The individual pages: the loop over the results, guarded by \<^verbatim>\<open>!fields.externalLink\<close>.\<close>

definition mediaItemPages :: "string \<Rightarrow> remark_node list \<Rightarrow> page list" where
  "mediaItemPages mediaType results =
     map (mediaPage mediaType) (filter (\<lambda>r. \<not> truthy (externalLink (node_fields r))) results)"

definition mediaStep :: "(query \<Rightarrow> qresult) \<Rightarrow> string \<times> string \<Rightarrow> build \<Rightarrow> build" where
  "mediaStep graphql mt b =
     (case mt of (mediaType, title) \<Rightarrow>
        (let mediaResult = graphql (AllMarkdownRemark mediaType)
         in case errors mediaResult of
              Some es \<Rightarrow> console_log (Log LError (''Error fetching '' @ mediaType @ '':'') es) b
            | None \<Rightarrow>
                (let results = allMarkdownRemark mediaResult
                 in fold createPage (mediaListPages mediaType title results @ mediaItemPages mediaType results) b)))"

definition newsListPage :: "nat \<Rightarrow> nat \<Rightarrow> page" where
  "newsListPage numPages i =
     \<lparr>path = (if i = 0 then ''/media/news'' else ''/media/news/'' @ toString (i + 1)),
      component = NewsListTemplate,
      ctx = [(''limit'', CNum 15),
             (''skip'', CNum (i * 15)),
             (''numPages'', CNum numPages),
             (''currentPage'', CNum (i + 1)),
             (''basePage'', CStr ''/media/news''),
             (''link'', CStr (''/media/news'' @ (if i > 0 then ''/'' @ toString (i + 1) else '''')))]\<rparr>"

definition newsListPages :: "remark_node list \<Rightarrow> page list" where
  "newsListPages results =
     (let numPages = Math_ceil (length results) 15
      in map (newsListPage numPages) [0..<numPages])"

text \<open>
  The whole function. \<open>graphql\<close> is \<open>None\<close> when the host passes none, \<open>has_createPage\<close>
  tells whether the \<^verbatim>\<open>createPage\<close> action was passed. A \<^verbatim>\<open>throw\<close> ends the function
  with \<open>Raised\<close>; the pages registered before it stay registered.
\<close>

definition createPages :: "(query \<Rightarrow> qresult) option \<Rightarrow> bool \<Rightarrow> build \<Rightarrow> outcome \<times> build" where
  "createPages graphql_opt has_createPage b =
     (case graphql_opt of
        None \<Rightarrow> (Returned, console_log (Log LError ''GraphQL and createPage are required'' []) b)
      | Some graphql \<Rightarrow>
          if \<not> has_createPage
          then (Returned, console_log (Log LError ''GraphQL and createPage are required'' []) b)
          else
            (let pagesResult = graphql AllPagesJson
             in case errors pagesResult of
                  Some es \<Rightarrow>
                    (Raised (Error ''Failed to fetch pages''),
                     console_log (Log LError ''Error fetching pages:'' es) b)
                | None \<Rightarrow>
                    (let pages = allPagesJson pagesResult;
                         b1 = fold staticPageStep (enumerate 0 pages) b;
                         b2 = fold (mediaStep graphql) mediaTypes b1;
                         newsResult = graphql (AllMarkdownRemark ''news'')
                     in case errors newsResult of
                          Some es \<Rightarrow>
                            (Raised (Error ''Failed to fetch news articles''),
                             console_log (Log LError ''Error fetching news articles:'' es) b2)
                        | None \<Rightarrow>
                            (Returned, fold createPage (newsListPages (allMarkdownRemark newsResult)) b2))))"

section \<open>Node processing (\<^verbatim>\<open>exports.onCreateNode\<close>)\<close>

subsection \<open>Values of a JSON node\<close>

datatype jsval =
    JString string
  | JNumber int
  | JBool bool
  | JNull
  | JArray "jsval list"
  | JObject "(string \<times> jsval) list"

datatype jstype = TString | TNumber | TBoolean | TObject

text \<open>\<^verbatim>\<open>typeof\<close>: arrays and \<^verbatim>\<open>null\<close> are objects.\<close>

fun typeof :: "jsval \<Rightarrow> jstype" where
  "typeof (JString s) = TString"
| "typeof (JNumber n) = TNumber"
| "typeof (JBool b) = TBoolean"
| "typeof JNull = TObject"
| "typeof (JArray xs) = TObject"
| "typeof (JObject kvs) = TObject"

text \<open>The truthiness test of \<^verbatim>\<open>value && ...\<close>.\<close>

fun js_truthy :: "jsval \<Rightarrow> bool" where
  "js_truthy (JString s) = (s \<noteq> [])"
| "js_truthy (JNumber n) = (n \<noteq> 0)"
| "js_truthy (JBool b) = b"
| "js_truthy JNull = False"
| "js_truthy (JArray xs) = True"
| "js_truthy (JObject kvs) = True"

text \<open>
  \<^verbatim>\<open>Object.entries\<close>: the properties of an object in order, the elements of an array
  (or the characters of a string) under their decimal indices, nothing for the rest.
\<close>

fun Object_entries :: "jsval \<Rightarrow> (string \<times> jsval) list" where
  "Object_entries (JObject kvs) = kvs"
| "Object_entries (JArray xs) = zip (map toString [0..<length xs]) xs"
| "Object_entries (JString s) = zip (map toString [0..<length s]) (map (\<lambda>c. JString [c]) s)"
| "Object_entries v = []"

definition startsWith :: "string \<Rightarrow> string \<Rightarrow> bool" where
  "startsWith s p = (take (length p) s = p)"

fun string_of :: "jsval \<Rightarrow> string" where
  "string_of (JString s) = s"
| "string_of v = []"

subsection \<open>Nodes, collaborators and actions\<close>

text \<open>
  The node being processed, as far as the code reads it: \<^verbatim>\<open>node.id\<close>,
  \<^verbatim>\<open>node.parent\<close>, \<^verbatim>\<open>node.internal.type\<close>, \<^verbatim>\<open>node.internal.mediaType\<close>, and
  \<open>node_entries\<close>, all own properties of the node as \<^verbatim>\<open>Object.entries(node)\<close> lists them.
\<close>

record node =
  node_id :: string
  parent :: "string option"
  internal_type :: string
  internal_mediaType :: "string option"
  node_entries :: "(string \<times> jsval) list"

record file_node =
  name :: string

text \<open>The node literals \<^verbatim>\<open>mdNode\<close> and \<^verbatim>\<open>svgNode\<close>.\<close>

record md_node =
  md_id :: string
  md_key :: string
  md_children :: "string list"
  md_parent :: string
  md_type :: string
  md_mediaType :: string
  md_content :: string
  md_contentDigest :: string

record svg_node =
  svg_id :: string
  svg_children :: "string list"
  svg_rawSvg :: string
  svg_parent :: string
  svg_type :: string
  svg_contentDigest :: string

text \<open>
  What a rejected promise or a \<^verbatim>\<open>throw\<close> hands to a \<^verbatim>\<open>catch\<close>: an error object, a string
  (as \<^verbatim>\<open>svgo\<close> rejects with; it stands for every value without a \<^verbatim>\<open>message\<close> property),
  \<^verbatim>\<open>null\<close> or \<^verbatim>\<open>undefined\<close>.
\<close>

datatype reason = ErrorObject error | StringReason string | NullReason | UndefinedReason

fun message :: "error \<Rightarrow> string" where
  "message (Error m) = m"
| "message (TypeError m) = m"

text \<open>
  The property read \<^verbatim>\<open>error.message\<close>: the message of an error object, \<^verbatim>\<open>undefined\<close>
  (\<open>None\<close>) on a string, a \<^verbatim>\<open>TypeError\<close> on \<^verbatim>\<open>null\<close> and on \<^verbatim>\<open>undefined\<close>.
\<close>

fun read_message :: "reason \<Rightarrow> error + string option" where
  "read_message (ErrorObject e) = Inr (Some (message e))"
| "read_message (StringReason s) = Inr None"
| "read_message NullReason = Inl (TypeError ''Cannot read properties of null'')"
| "read_message UndefinedReason = Inl (TypeError ''Cannot read properties of undefined'')"

text \<open>
  What the host passes to \<^verbatim>\<open>onCreateNode\<close>, and the module's \<^verbatim>\<open>svgo.optimize\<close>.
  A rejected promise or a throw is \<open>Inl\<close>, with the value thrown.
\<close>

record api =
  getNode :: "string option \<Rightarrow> file_node option"
  createNodeId :: "string \<Rightarrow> string"
  loadNodeContent :: "node \<Rightarrow> reason + string"
  createContentDigest :: "string \<Rightarrow> string"
  svgo_optimize :: "string \<Rightarrow> reason + string"

text \<open>The calls the function makes on the host and on the console, in order.\<close>

datatype action =
    CreateNodeField string string string
  | CreateMdNode md_node
  | CreateSvgNode svg_node
  | CreateParentChildLink string string
  | Console log

subsection \<open>The markdown fields of a \<^verbatim>\<open>PagesJson\<close> node\<close>

function createFieldsForObject :: "api \<Rightarrow> node \<Rightarrow> jsval \<Rightarrow> string \<Rightarrow> action list" where
  "createFieldsForObject a n obj pth =
     concat (map (\<lambda>(key, value).
        (let newPath = pth @ key
         in if typeof value = TString \<and> startsWith key ''md''
            then (let id = createNodeId a newPath;
                      mdNode = \<lparr>md_id = id,
                                md_key = key,
                                md_children = [],
                                md_parent = node_id n,
                                md_type = ''JsonMarkdownField'',
                                md_mediaType = ''text/markdown'',
                                md_content = string_of value,
                                md_contentDigest = createContentDigest a (string_of value)\<rparr>
                  in [CreateMdNode mdNode, CreateParentChildLink (node_id n) (md_id mdNode)])
            else if js_truthy value \<and> typeof value = TObject
            then createFieldsForObject a n value (newPath @ ''_'')
            else [])) (Object_entries obj))"
  by pat_completeness auto
termination
proof (relation "measure (\<lambda>(a, n, obj, pth). size obj)")
  show "wf (measure (\<lambda>(a, n, obj, pth). size obj))"
    by simp
next
  fix a :: api and n :: node and obj :: jsval and pth :: string
    and x :: "string \<times> jsval" and key :: string and val :: jsval and newPath :: string
  assume mem: "x \<in> set (Object_entries obj)" and x: "(key, val) = x"
    and obj: "js_truthy val \<and> typeof val = TObject"
  have in_list: "size v < Suc (size_list size vs)" if "v \<in> set vs" for v :: jsval and vs
    using that by (induction vs) auto
  have in_alist: "size v < Suc (size_list (size_prod (\<lambda>_. 0) size) kvs)"
    if "(k, v) \<in> set kvs" for k :: string and v :: jsval and kvs
    using that by (induction kvs) auto
  have "size val < size obj"
  proof (cases obj)
    case (JString s)
    with mem x obj show ?thesis
      by (auto dest!: set_zip_rightD)
  next
    case (JArray xs)
    with mem x have "val \<in> set xs"
      by (auto dest: set_zip_rightD)
    with JArray show ?thesis
      using in_list by simp
  next
    case (JObject kvs)
    with mem x have "(key, val) \<in> set kvs"
      by simp
    with JObject show ?thesis
      using in_alist by simp
  qed (use mem in simp_all)
  then show "((a, n, val, newPath @ ''_''), (a, n, obj, pth)) \<in> measure (\<lambda>(a, n, obj, pth). size obj)"
    by simp
qed

declare createFieldsForObject.simps [simp del]

subsection \<open>The SVG branch\<close>

text \<open>The body of the \<^verbatim>\<open>try\<close> block: \<open>Inl\<close> is a thrown value on its way to the \<^verbatim>\<open>catch\<close>.\<close>

definition svg_try :: "api \<Rightarrow> node \<Rightarrow> reason + action list" where
  "svg_try a n =
     (let id = createNodeId a (node_id n)
      in case loadNodeContent a n of
           Inl r \<Rightarrow> Inl r
         | Inr fileContent \<Rightarrow>
             if fileContent = []
             then Inr [Console (Log LWarn (''Empty content for SVG file: '' @ node_id n) [])]
             else (case svgo_optimize a fileContent of
                     Inl r \<Rightarrow> Inl r
                   | Inr rawSvg \<Rightarrow>
                       (let svgNode = \<lparr>svg_id = id,
                                        svg_children = [],
                                        svg_rawSvg = rawSvg,
                                        svg_parent = node_id n,
                                        svg_type = ''InlineSvg'',
                                        svg_contentDigest = createContentDigest a rawSvg\<rparr>
                        in Inr [CreateSvgNode svgNode, CreateParentChildLink (node_id n) (svg_id svgNode)])))"

text \<open>
  The \<^verbatim>\<open>try\<close> with its \<^verbatim>\<open>catch\<close>. The handler reads \<^verbatim>\<open>error.message\<close> of whatever was
  thrown before it logs, so that it throws itself when the thrown value is \<^verbatim>\<open>null\<close> or
  \<^verbatim>\<open>undefined\<close>: \<open>Inl\<close> is then the exception that leaves the handler, and nothing is logged.
\<close>

definition svg_branch :: "api \<Rightarrow> node \<Rightarrow> error + action list" where
  "svg_branch a n =
     (case svg_try a n of
        Inr acts \<Rightarrow> Inr acts
      | Inl r \<Rightarrow>
          (case read_message r of
             Inl e \<Rightarrow> Inl e
           | Inr m \<Rightarrow>
               Inr [Console (LogValue LError (''Error processing SVG file '' @ node_id n @ '':'') m)]))"

subsection \<open>The whole function\<close>

definition is_svg :: "node \<Rightarrow> bool" where
  "is_svg n = (internal_mediaType n = Some ''image/svg+xml'')"

definition typesToSlug :: "string list" where
  "typesToSlug = [''MarkdownRemark'', ''PagesJson'', ''ContentJson'']"

text \<open>
  \<open>node_opt\<close> is \<open>None\<close> when the host passes no node, \<open>has_actions\<close> tells whether the
  actions object was passed. The result is how the function ended and what it did; the calls
  made before an exception leaves the function stay made.
\<close>

definition onCreateNode :: "api \<Rightarrow> node option \<Rightarrow> bool \<Rightarrow> outcome \<times> action list" where
  "onCreateNode a node_opt has_actions =
     (case node_opt of
        None \<Rightarrow> (Returned, [Console (Log LError ''Node and actions are required'' [])])
      | Some n \<Rightarrow>
          if \<not> has_actions
          then (Returned, [Console (Log LError ''Node and actions are required'' [])])
          else if internal_type n \<in> set typesToSlug \<and> getNode a (parent n) = None
          then (Returned, [Console (Log LWarn (''Parent file node not found for node: '' @ node_id n) [])])
          else
            (let acts =
               (if internal_type n \<in> set typesToSlug
                then (case getNode a (parent n) of
                        Some fileNode \<Rightarrow> [CreateNodeField (node_id n) ''slug'' (name fileNode)]
                      | None \<Rightarrow> [])
                else [])
               @ (if internal_type n = ''PagesJson''
                  then createFieldsForObject a n (JObject (node_entries n)) (node_id n @ ''_'')
                  else [])
             in if is_svg n
                then (case svg_branch a n of
                        Inr svg_acts \<Rightarrow> (Returned, acts @ svg_acts)
                      | Inl e \<Rightarrow> (Raised e, acts))
                else (Returned, acts)))"

section \<open>The routes of each phase\<close>

text \<open>
  The pages that the static phase registers for a list of page nodes, and the pages that
  one pass of the media loop registers for a media type, written as lists.
\<close>

definition staticRoutes :: "page_node list \<Rightarrow> page list" where
  "staticRoutes pages =
     concat (map (\<lambda>p. case navigation p of
                          None \<Rightarrow> []
                        | Some nav \<Rightarrow> (case link nav of None \<Rightarrow> [] | Some l \<Rightarrow> if l = [] then [] else [staticPage l])) pages)"

definition mediaRoutes :: "(query \<Rightarrow> qresult) \<Rightarrow> string \<times> string \<Rightarrow> page list" where
  "mediaRoutes graphql mt =
     (case errors (graphql (AllMarkdownRemark (fst mt))) of
        Some es \<Rightarrow> []
      | None \<Rightarrow> mediaListPages (fst mt) (snd mt) (allMarkdownRemark (graphql (AllMarkdownRemark (fst mt))))
                @ mediaItemPages (fst mt) (allMarkdownRemark (graphql (AllMarkdownRemark (fst mt)))))"

text \<open>
  The selection of the markdown queries is \<^verbatim>\<open>nodes { fields { slug } }\<close>: a host that
  answers the query returns, for each item of the graph, the selected field and nothing
  else, so that \<^verbatim>\<open>fields.externalLink\<close> of a result item is \<^verbatim>\<open>undefined\<close> whatever the
  item holds in the graph.
\<close>

definition media_query_selection :: "remark_node \<Rightarrow> remark_node" where
  "media_query_selection r = \<lparr>node_fields = \<lparr>slug = slug (node_fields r), externalLink = None\<rparr>\<rparr>"

section \<open>The markdown fields of a payload\<close>

text \<open>
  The node literal and the two calls that \<^verbatim>\<open>createFieldsForObject\<close> makes for one markdown
  field, given the accumulated path, the key and the string.
\<close>

definition mdNode :: "api \<Rightarrow> node \<Rightarrow> string \<Rightarrow> string \<Rightarrow> string \<Rightarrow> md_node" where
  "mdNode a n newPath key s =
     \<lparr>md_id = createNodeId a newPath,
      md_key = key,
      md_children = [],
      md_parent = node_id n,
      md_type = ''JsonMarkdownField'',
      md_mediaType = ''text/markdown'',
      md_content = s,
      md_contentDigest = createContentDigest a s\<rparr>"

definition md_actions :: "api \<Rightarrow> node \<Rightarrow> string \<Rightarrow> string \<Rightarrow> string \<Rightarrow> action list" where
  "md_actions a n newPath key s =
     [CreateMdNode (mdNode a n newPath key s),
      CreateParentChildLink (node_id n) (createNodeId a newPath)]"

text \<open>
  The path string that the traversal has accumulated when it reaches the key path \<open>ks\<close>
  from the prefix \<open>pth\<close>: the keys joined by \<^verbatim>\<open>_\<close>.
\<close>

fun path_of :: "string \<Rightarrow> string list \<Rightarrow> string" where
  "path_of pth [] = pth"
| "path_of pth [k] = pth @ k"
| "path_of pth (k # ks) = path_of (pth @ k @ ''_'') ks"

text \<open>
  The values found in \<open>obj\<close> under a key path, following only properties whose value is an
  object or an array; a markdown field is a string under a key path whose last key starts
  with \<^verbatim>\<open>md\<close>.
\<close>

fun values_at :: "jsval \<Rightarrow> string list \<Rightarrow> jsval list" where
  "values_at obj [] = [obj]"
| "values_at obj [k] = map snd (filter (\<lambda>kv. fst kv = k) (Object_entries obj))"
| "values_at obj (k # ks) =
     concat (map (\<lambda>kv. if fst kv = k \<and> js_truthy (snd kv) \<and> typeof (snd kv) = TObject
                         then values_at (snd kv) ks else [])
                 (Object_entries obj))"

definition md_field_at :: "jsval \<Rightarrow> string list \<Rightarrow> string \<Rightarrow> bool" where
  "md_field_at obj ks s = (ks \<noteq> [] \<and> startsWith (last ks) ''md'' \<and> JString s \<in> set (values_at obj ks))"

text \<open>The markdown fields of a value, with their key paths, in the order of the traversal.\<close>

function md_fields :: "jsval \<Rightarrow> (string list \<times> string) list" where
  "md_fields obj =
     concat (map (\<lambda>(key, value).
        if typeof value = TString \<and> startsWith key ''md''
        then [([key], string_of value)]
        else if js_truthy value \<and> typeof value = TObject
        then map (\<lambda>(ks, s). (key # ks, s)) (md_fields value)
        else []) (Object_entries obj))"
  by pat_completeness auto
termination
proof (relation "measure size")
  show "wf (measure (size :: jsval \<Rightarrow> nat))"
    by simp
next
  fix obj :: jsval and x :: "string \<times> jsval" and key :: string and val :: jsval
  assume mem: "x \<in> set (Object_entries obj)" and x: "(key, val) = x"
    and obj: "js_truthy val \<and> typeof val = TObject"
  have in_list: "size v < Suc (size_list size vs)" if "v \<in> set vs" for v :: jsval and vs
    using that by (induction vs) auto
  have in_alist: "size v < Suc (size_list (size_prod (\<lambda>_. 0) size) kvs)"
    if "(k, v) \<in> set kvs" for k :: string and v :: jsval and kvs
    using that by (induction kvs) auto
  have "size val < size obj"
  proof (cases obj)
    case (JString s)
    with mem x obj show ?thesis
      by (auto dest!: set_zip_rightD)
  next
    case (JArray xs)
    with mem x have "val \<in> set xs"
      by (auto dest: set_zip_rightD)
    with JArray show ?thesis
      using in_list by simp
  next
    case (JObject kvs)
    with mem x have "(key, val) \<in> set kvs"
      by simp
    with JObject show ?thesis
      using in_alist by simp
  qed (use mem in simp_all)
  then show "(val, obj) \<in> measure size"
    by simp
qed

declare md_fields.simps [simp del]


text \<open>
  The keys of a JavaScript object are pairwise distinct; \<open>sep_free\<close> says in addition that
  no key holds the separator \<^verbatim>\<open>_\<close>.
\<close>

fun wf_json :: "jsval \<Rightarrow> bool" where
  "wf_json (JObject kvs) = (distinct (map fst kvs) \<and> list_all (\<lambda>kv. wf_json (snd kv)) kvs)"
| "wf_json (JArray xs) = list_all wf_json xs"
| "wf_json v = True"

fun sep_free :: "jsval \<Rightarrow> bool" where
  "sep_free (JObject kvs) = list_all (\<lambda>kv. CHR ''_'' \<notin> set (fst kv) \<and> sep_free (snd kv)) kvs"
| "sep_free (JArray xs) = list_all sep_free xs"
| "sep_free v = True"

text \<open>The nodes and node fields created by a list of actions.\<close>

fun md_nodes_of :: "action list \<Rightarrow> md_node list" where
  "md_nodes_of [] = []"
| "md_nodes_of (CreateMdNode m # acts) = m # md_nodes_of acts"
| "md_nodes_of (x # acts) = md_nodes_of acts"

fun svg_nodes_of :: "action list \<Rightarrow> svg_node list" where
  "svg_nodes_of [] = []"
| "svg_nodes_of (CreateSvgNode m # acts) = m # svg_nodes_of acts"
| "svg_nodes_of (x # acts) = svg_nodes_of acts"

fun node_fields_of :: "action list \<Rightarrow> (string \<times> string \<times> string) list" where
  "node_fields_of [] = []"
| "node_fields_of (CreateNodeField i nm v # acts) = (i, nm, v) # node_fields_of acts"
| "node_fields_of (x # acts) = node_fields_of acts"

text \<open>The calls that \<^verbatim>\<open>onCreateNode\<close> makes before it reaches the SVG branch.\<close>

definition before_svg :: "api \<Rightarrow> node \<Rightarrow> action list" where
  "before_svg a n =
     (if internal_type n \<in> set typesToSlug
      then (case getNode a (parent n) of
              Some fileNode \<Rightarrow> [CreateNodeField (node_id n) ''slug'' (name fileNode)]
            | None \<Rightarrow> [])
      else [])
     @ (if internal_type n = ''PagesJson''
        then createFieldsForObject a n (JObject (node_entries n)) (node_id n @ ''_'')
        else [])"

text \<open>
  Two hosts to run the functions on: one whose \<^verbatim>\<open>createNodeId\<close> and
  \<^verbatim>\<open>createContentDigest\<close> are the identity, one whose digest is a checksum of one byte.
\<close>

definition identity_host :: api where
  "identity_host =
     \<lparr>getNode = (\<lambda>p. Some \<lparr>name = ''index''\<rparr>),
      createNodeId = (\<lambda>s. s),
      loadNodeContent = (\<lambda>n. Inr []),
      createContentDigest = (\<lambda>s. s),
      svgo_optimize = (\<lambda>s. Inr s)\<rparr>"

definition checksum :: "string \<Rightarrow> string" where
  "checksum s = toString (sum_list (map of_char s) mod 256)"

definition checksum_host :: api where
  "checksum_host = identity_host\<lparr>createContentDigest := checksum\<rparr>"


section \<open>Properties of page creation\<close>

lemma created_fold_createPage: "created (fold createPage ps b) = created b @ ps"
  by (induction ps arbitrary: b) (simp_all add: createPage_def)

lemma created_console_log: "created (console_log l b) = created b"
  by (simp add: console_log_def)

lemma created_staticPageStep:
  "created (staticPageStep (i, p) b) = created b @ staticRoutes [p]"
  by (cases "link (the (navigation p))")
     (simp_all add: staticPageStep_def staticRoutes_def created_console_log createPage_def
        split: option.splits)

lemma staticRoutes_Cons: "staticRoutes (p # ps) = staticRoutes [p] @ staticRoutes ps"
  by (simp add: staticRoutes_def)

lemma created_static_fold:
  "created (fold staticPageStep (enumerate i pages) b) = created b @ staticRoutes pages"
proof (induction pages arbitrary: i b)
  case Nil
  show ?case by (simp add: staticRoutes_def)
next
  case (Cons p ps)
  show ?case
    by (simp add: Cons.IH created_staticPageStep staticRoutes_Cons [of p ps])
qed

lemma created_mediaStep: "created (mediaStep g mt b) = created b @ mediaRoutes g mt"
  by (cases mt)
     (simp add: mediaStep_def mediaRoutes_def created_console_log created_fold_createPage Let_def
        split: option.splits)

lemma created_media_fold:
  "created (fold (mediaStep g) mts b) = created b @ concat (map (mediaRoutes g) mts)"
  by (induction mts arbitrary: b) (simp_all add: created_mediaStep)

lemma createPages_created:
  assumes "errors (g AllPagesJson) = None"
  shows "created (snd (createPages (Some g) True b)) =
           created b @ staticRoutes (allPagesJson (g AllPagesJson))
           @ mediaRoutes g (''announcements'', ''Announcements'')
           @ mediaRoutes g (''blog'', ''Blog'')
           @ (case errors (g (AllMarkdownRemark ''news'')) of
                Some es \<Rightarrow> []
              | None \<Rightarrow> newsListPages (allMarkdownRemark (g (AllMarkdownRemark ''news''))))"
  using assms
  by (simp add: createPages_def Let_def created_console_log created_fold_createPage
      created_mediaStep created_static_fold mediaTypes_def split: option.splits)

lemma createPages_outcome:
  assumes "errors (g AllPagesJson) = None"
  shows "fst (createPages (Some g) True b) =
           (case errors (g (AllMarkdownRemark ''news'')) of
              Some es \<Rightarrow> Raised (Error ''Failed to fetch news articles'')
            | None \<Rightarrow> Returned)"
  using assms by (simp add: createPages_def Let_def split: option.splits)

lemma Math_ceil_real: "0 < p \<Longrightarrow> int (Math_ceil n p) = \<lceil>real n / real p\<rceil>"
proof -
  assume p: "0 < p"
  define z where "z = (n + p - 1) div p"
  have split: "z * p + (n + p - 1) mod p = n + p - 1"
    unfolding z_def by (rule div_mult_mod_eq)
  have "(n + p - 1) mod p < p"
    using p by simp
  with split p have up: "n \<le> z * p" and lo: "z * p < n + p"
    by linarith+
  have "real (z * p) < real (n + p)"
    using lo by (simp only: of_nat_less_iff)
  then have "real z * real p - real p < real n"
    by simp
  then have "(real z - 1) * real p < real n"
    by (simp add: algebra_simps)
  then have "real z - 1 < real n / real p"
    using p by (simp add: pos_less_divide_eq)
  moreover have "real n \<le> real (z * p)"
    using up by (simp only: of_nat_le_iff)
  then have "real n / real p \<le> real z"
    using p by (simp add: pos_divide_le_eq)
  ultimately have "\<lceil>real n / real p\<rceil> = int z"
    by (simp add: ceiling_eq_iff)
  then show ?thesis by (simp add: Math_ceil_def z_def)
qed


lemma toString_2: "toString (Suc (Suc 0)) = ''2''"
  by (simp add: toString.simps digit_def)

lemma length_mediaListPages:
  "length (mediaListPages mediaType title results) = Math_ceil (length results) pageSize"
  by (simp add: mediaListPages_def Let_def)

lemma length_newsListPages:
  "length (newsListPages results) = Math_ceil (length results) 15"
  by (simp add: newsListPages_def Let_def)

lemma component_staticRoutes: "p \<in> set (staticRoutes ps) \<Longrightarrow> component p = StaticPageTemplate"
  by (auto simp: staticRoutes_def staticPage_def split: option.splits if_splits)

lemma component_newsListPages: "p \<in> set (newsListPages rs) \<Longrightarrow> component p = NewsListTemplate"
  by (auto simp: newsListPages_def Let_def newsListPage_def)

lemma mediaListPages_props:
  "p \<in> set (mediaListPages c t rs) \<Longrightarrow>
     component p = MediaListTemplate \<and> map_of (ctx p) ''mediaType'' = Some (CStr c)"
  by (auto simp: mediaListPages_def Let_def mediaListPage_def)

lemma mediaItemPages_props:
  "p \<in> set (mediaItemPages c rs) \<Longrightarrow>
     component p = MediaPageTemplate \<and> map_of (ctx p) ''mediaType'' = Some (CStr c)"
  by (auto simp: mediaItemPages_def mediaPage_def)

lemma filter_all: "(\<And>x. x \<in> set xs \<Longrightarrow> P x) \<Longrightarrow> filter P xs = xs"
  by (induction xs) auto

lemma filter_none: "(\<And>x. x \<in> set xs \<Longrightarrow> \<not> P x) \<Longrightarrow> filter P xs = []"
  by (induction xs) auto

lemma filter_mediaRoutes_list:
  "[p \<leftarrow> mediaRoutes g (c, t). component p = MediaListTemplate \<and> map_of (ctx p) ''mediaType'' = Some (CStr mt)] =
     (if c = mt \<and> errors (g (AllMarkdownRemark c)) = None
      then mediaListPages c t (allMarkdownRemark (g (AllMarkdownRemark c))) else [])"
proof (cases "errors (g (AllMarkdownRemark c))")
  case (Some es)
  then show ?thesis by (simp add: mediaRoutes_def)
next
  case None
  let ?rs = "allMarkdownRemark (g (AllMarkdownRemark c))"
  let ?P = "\<lambda>p. component p = MediaListTemplate \<and> map_of (ctx p) ''mediaType'' = Some (CStr mt)"
  have items: "filter ?P (mediaItemPages c ?rs) = []"
    by (rule filter_none) (auto dest: mediaItemPages_props)
  have lists: "filter ?P (mediaListPages c t ?rs) = (if c = mt then mediaListPages c t ?rs else [])"
  proof (cases "c = mt")
    case True
    then show ?thesis by (simp add: filter_all mediaListPages_props)
  next
    case False
    have "filter ?P (mediaListPages c t ?rs) = []"
      by (rule filter_none) (use False in \<open>auto dest: mediaListPages_props\<close>)
    with False show ?thesis by simp
  qed
  from None items lists show ?thesis
    by (simp add: mediaRoutes_def)
qed

lemma filter_mediaRoutes_items:
  "[p \<leftarrow> mediaRoutes g (c, t). component p = MediaPageTemplate \<and> map_of (ctx p) ''mediaType'' = Some (CStr mt)] =
     (if c = mt \<and> errors (g (AllMarkdownRemark c)) = None
      then mediaItemPages c (allMarkdownRemark (g (AllMarkdownRemark c))) else [])"
proof (cases "errors (g (AllMarkdownRemark c))")
  case (Some es)
  then show ?thesis by (simp add: mediaRoutes_def)
next
  case None
  let ?rs = "allMarkdownRemark (g (AllMarkdownRemark c))"
  let ?P = "\<lambda>p. component p = MediaPageTemplate \<and> map_of (ctx p) ''mediaType'' = Some (CStr mt)"
  have lists: "filter ?P (mediaListPages c t ?rs) = []"
    by (rule filter_none) (auto dest: mediaListPages_props)
  have items: "filter ?P (mediaItemPages c ?rs) = (if c = mt then mediaItemPages c ?rs else [])"
  proof (cases "c = mt")
    case True
    then show ?thesis by (simp add: filter_all mediaItemPages_props)
  next
    case False
    have "filter ?P (mediaItemPages c ?rs) = []"
      by (rule filter_none) (use False in \<open>auto dest: mediaItemPages_props\<close>)
    with False show ?thesis by simp
  qed
  from None items lists show ?thesis
    by (simp add: mediaRoutes_def)
qed

lemma filter_static_not:
  "t \<noteq> StaticPageTemplate \<Longrightarrow> [p \<leftarrow> staticRoutes ps. component p = t \<and> Q p] = []"
  by (rule filter_none) (auto dest: component_staticRoutes)

lemma filter_news_not:
  "t \<noteq> NewsListTemplate \<Longrightarrow> [p \<leftarrow> newsListPages rs. component p = t \<and> Q p] = []"
  by (rule filter_none) (auto dest: component_newsListPages)

lemma createPages_media_list_pages:
  assumes "errors (g AllPagesJson) = None"
  shows "[p \<leftarrow> created (snd (createPages (Some g) True b)).
            component p = MediaListTemplate \<and> map_of (ctx p) ''mediaType'' = Some (CStr mt)] =
         [p \<leftarrow> created b. component p = MediaListTemplate \<and> map_of (ctx p) ''mediaType'' = Some (CStr mt)]
         @ (if mt = ''announcements'' \<and> errors (g (AllMarkdownRemark mt)) = None
            then mediaListPages mt ''Announcements'' (allMarkdownRemark (g (AllMarkdownRemark mt))) else [])
         @ (if mt = ''blog'' \<and> errors (g (AllMarkdownRemark mt)) = None
            then mediaListPages mt ''Blog'' (allMarkdownRemark (g (AllMarkdownRemark mt))) else [])"
proof -
  let ?P = "\<lambda>p. component p = MediaListTemplate \<and> map_of (ctx p) ''mediaType'' = Some (CStr mt)"
  have a: "filter ?P (mediaRoutes g (''announcements'', ''Announcements'')) =
      (if mt = ''announcements'' \<and> errors (g (AllMarkdownRemark mt)) = None
       then mediaListPages mt ''Announcements'' (allMarkdownRemark (g (AllMarkdownRemark mt))) else [])"
    unfolding filter_mediaRoutes_list by auto
  have b: "filter ?P (mediaRoutes g (''blog'', ''Blog'')) =
      (if mt = ''blog'' \<and> errors (g (AllMarkdownRemark mt)) = None
       then mediaListPages mt ''Blog'' (allMarkdownRemark (g (AllMarkdownRemark mt))) else [])"
    unfolding filter_mediaRoutes_list by auto
  have s: "filter ?P (staticRoutes ps) = []" for ps
    by (rule filter_static_not) simp
  have n: "filter ?P (newsListPages rs) = []" for rs
    by (rule filter_news_not) simp
  have n': "filter ?P (case errors (g (AllMarkdownRemark ''news'')) of
              Some es \<Rightarrow> []
            | None \<Rightarrow> newsListPages (allMarkdownRemark (g (AllMarkdownRemark ''news'')))) = []"
    by (simp only: n split: option.split) simp
  show ?thesis
    unfolding createPages_created [of g b, OF assms] filter_append a b s n' by simp
qed

lemma createPages_media_item_pages:
  assumes "errors (g AllPagesJson) = None"
  shows "[p \<leftarrow> created (snd (createPages (Some g) True b)).
            component p = MediaPageTemplate \<and> map_of (ctx p) ''mediaType'' = Some (CStr mt)] =
         [p \<leftarrow> created b. component p = MediaPageTemplate \<and> map_of (ctx p) ''mediaType'' = Some (CStr mt)]
         @ (if (mt = ''announcements'' \<or> mt = ''blog'') \<and> errors (g (AllMarkdownRemark mt)) = None
            then mediaItemPages mt (allMarkdownRemark (g (AllMarkdownRemark mt))) else [])"
proof -
  let ?P = "\<lambda>p. component p = MediaPageTemplate \<and> map_of (ctx p) ''mediaType'' = Some (CStr mt)"
  have a: "filter ?P (mediaRoutes g (''announcements'', ''Announcements'')) =
      (if mt = ''announcements'' \<and> errors (g (AllMarkdownRemark mt)) = None
       then mediaItemPages mt (allMarkdownRemark (g (AllMarkdownRemark mt))) else [])"
    unfolding filter_mediaRoutes_items by auto
  have b: "filter ?P (mediaRoutes g (''blog'', ''Blog'')) =
      (if mt = ''blog'' \<and> errors (g (AllMarkdownRemark mt)) = None
       then mediaItemPages mt (allMarkdownRemark (g (AllMarkdownRemark mt))) else [])"
    unfolding filter_mediaRoutes_items by auto
  have s: "filter ?P (staticRoutes ps) = []" for ps
    by (rule filter_static_not) simp
  have n: "filter ?P (newsListPages rs) = []" for rs
    by (rule filter_news_not) simp
  have n': "filter ?P (case errors (g (AllMarkdownRemark ''news'')) of
              Some es \<Rightarrow> []
            | None \<Rightarrow> newsListPages (allMarkdownRemark (g (AllMarkdownRemark ''news'')))) = []"
    by (simp only: n split: option.split) simp
  show ?thesis
    unfolding createPages_created [of g b, OF assms] filter_append a b s n' by auto
qed

lemma createPages_news_pages:
  assumes "errors (g AllPagesJson) = None"
  shows "[p \<leftarrow> created (snd (createPages (Some g) True b)). component p = NewsListTemplate] =
         [p \<leftarrow> created b. component p = NewsListTemplate]
         @ (case errors (g (AllMarkdownRemark ''news'')) of
              Some es \<Rightarrow> []
            | None \<Rightarrow> newsListPages (allMarkdownRemark (g (AllMarkdownRemark ''news''))))"
proof -
  have s: "[p \<leftarrow> staticRoutes ps. component p = NewsListTemplate] = []" for ps
    by (rule filter_none) (auto dest: component_staticRoutes)
  have m: "[p \<leftarrow> mediaRoutes g mt. component p = NewsListTemplate] = []" for mt
    by (rule filter_none)
      (auto simp: mediaRoutes_def split: option.splits dest: mediaListPages_props mediaItemPages_props)
  have n: "[p \<leftarrow> newsListPages rs. component p = NewsListTemplate] = newsListPages rs" for rs
    by (rule filter_all) (auto dest: component_newsListPages)
  show ?thesis
    by (simp add: createPages_created [of g b, OF assms] s m n split: option.splits)
qed


text \<open>
  C3: a media category with \<open>N\<close> query-result items gets exactly \<open>\<lceil>N / P\<rceil>\<close> listing
  pages, where \<open>P\<close> is 10 for the media types of the loop and 15 for news; page 0 has
  the path \<^verbatim>\<open>/media/{category}\<close> without a suffix, page \<open>k > 0\<close> the path
  \<^verbatim>\<open>/media/{category}/(k+1)\<close>, and the \<^verbatim>\<open>skip\<close> entry of page \<open>k\<close>'s context is \<open>k * P\<close>.
  These are the list pages that \<^verbatim>\<open>createPages\<close> registers for the category.
\<close>

theorem listing_pages_pagination:
  "pageSize = 10
   \<and> int (length (mediaListPages mediaType title results)) = \<lceil>real (length results) / real pageSize\<rceil>
   \<and> int (length (newsListPages results)) = \<lceil>real (length results) / 15\<rceil>
   \<and> (\<forall>k < length (mediaListPages mediaType title results).
         path (mediaListPages mediaType title results ! k) =
           (if k = 0 then ''/media/'' @ mediaType else ''/media/'' @ mediaType @ ''/'' @ toString (k + 1))
         \<and> map_of (ctx (mediaListPages mediaType title results ! k)) ''skip'' = Some (CNum (k * pageSize)))
   \<and> (\<forall>k < length (newsListPages results).
         path (newsListPages results ! k) =
           (if k = 0 then ''/media/news'' else ''/media/news/'' @ toString (k + 1))
         \<and> map_of (ctx (newsListPages results ! k)) ''skip'' = Some (CNum (k * 15)))
   \<and> (errors (g AllPagesJson) = None \<and> errors (g (AllMarkdownRemark mediaType)) = None
        \<and> (mediaType, title) \<in> set mediaTypes \<longrightarrow>
      [p \<leftarrow> created (snd (createPages (Some g) True b)).
         component p = MediaListTemplate \<and> map_of (ctx p) ''mediaType'' = Some (CStr mediaType)] =
      [p \<leftarrow> created b.
         component p = MediaListTemplate \<and> map_of (ctx p) ''mediaType'' = Some (CStr mediaType)]
      @ mediaListPages mediaType title (allMarkdownRemark (g (AllMarkdownRemark mediaType))))
   \<and> (errors (g AllPagesJson) = None \<and> errors (g (AllMarkdownRemark ''news'')) = None \<longrightarrow>
      [p \<leftarrow> created (snd (createPages (Some g) True b)). component p = NewsListTemplate] =
      [p \<leftarrow> created b. component p = NewsListTemplate]
      @ newsListPages (allMarkdownRemark (g (AllMarkdownRemark ''news''))))"
proof (intro conjI allI impI)
  assume "errors (g AllPagesJson) = None \<and> errors (g (AllMarkdownRemark mediaType)) = None
        \<and> (mediaType, title) \<in> set mediaTypes"
  then show "[p \<leftarrow> created (snd (createPages (Some g) True b)).
         component p = MediaListTemplate \<and> map_of (ctx p) ''mediaType'' = Some (CStr mediaType)] =
      [p \<leftarrow> created b.
         component p = MediaListTemplate \<and> map_of (ctx p) ''mediaType'' = Some (CStr mediaType)]
      @ mediaListPages mediaType title (allMarkdownRemark (g (AllMarkdownRemark mediaType)))"
    by (auto simp: createPages_media_list_pages mediaTypes_def)
next
  assume "errors (g AllPagesJson) = None \<and> errors (g (AllMarkdownRemark ''news'')) = None"
  then show "[p \<leftarrow> created (snd (createPages (Some g) True b)). component p = NewsListTemplate] =
      [p \<leftarrow> created b. component p = NewsListTemplate]
      @ newsListPages (allMarkdownRemark (g (AllMarkdownRemark ''news'')))"
    by (simp add: createPages_news_pages)
next
  show "pageSize = 10"
    by (simp add: pageSize_def)
  show "int (length (mediaListPages mediaType title results)) = \<lceil>real (length results) / real pageSize\<rceil>"
    by (simp add: length_mediaListPages Math_ceil_real pageSize_def)
  show "int (length (newsListPages results)) = \<lceil>real (length results) / 15\<rceil>"
    using Math_ceil_real [of 15 "length results"] by (simp add: length_newsListPages)
next
  fix k
  assume "k < length (mediaListPages mediaType title results)"
  then have k: "k < Math_ceil (length results) pageSize"
    by (simp add: length_mediaListPages)
  then show "path (mediaListPages mediaType title results ! k) =
           (if k = 0 then ''/media/'' @ mediaType else ''/media/'' @ mediaType @ ''/'' @ toString (k + 1))"
    by (simp add: mediaListPages_def Let_def mediaListPage_def)
  from k show "map_of (ctx (mediaListPages mediaType title results ! k)) ''skip'' = Some (CNum (k * pageSize))"
    by (simp add: mediaListPages_def Let_def mediaListPage_def)
next
  fix k
  assume "k < length (newsListPages results)"
  then have k: "k < Math_ceil (length results) 15"
    by (simp add: length_newsListPages)
  then show "path (newsListPages results ! k) =
           (if k = 0 then ''/media/news'' else ''/media/news/'' @ toString (k + 1))"
    by (simp add: newsListPages_def Let_def newsListPage_def)
  from k show "map_of (ctx (newsListPages results ! k)) ''skip'' = Some (CNum (k * 15))"
    by (simp add: newsListPages_def Let_def newsListPage_def)
qed

theorem listing_pages_pagination_witness:
  "length (mediaListPages ''blog'' ''Blog'' (replicate 12 \<lparr>node_fields = \<lparr>slug = ''post'', externalLink = None\<rparr>\<rparr>)) = 2
   \<and> path (mediaListPages ''blog'' ''Blog'' (replicate 12 \<lparr>node_fields = \<lparr>slug = ''post'', externalLink = None\<rparr>\<rparr>) ! 1)
       = ''/media/blog/2''
   \<and> map_of (ctx (mediaListPages ''blog'' ''Blog'' (replicate 12 \<lparr>node_fields = \<lparr>slug = ''post'', externalLink = None\<rparr>\<rparr>) ! 1)) ''skip''
       = Some (CNum 10)"
proof -
  let ?rs = "replicate 12 \<lparr>node_fields = \<lparr>slug = ''post'', externalLink = None\<rparr>\<rparr>"
  note t = listing_pages_pagination [of "''blog''" "''Blog''" ?rs]
  from t have "int (length (mediaListPages ''blog'' ''Blog'' ?rs)) = \<lceil>real (length ?rs) / real pageSize\<rceil>"
    by blast
  then have len: "length (mediaListPages ''blog'' ''Blog'' ?rs) = 2"
    by (simp add: pageSize_def)
  then have "1 < length (mediaListPages ''blog'' ''Blog'' ?rs)"
    by simp
  with t have "path (mediaListPages ''blog'' ''Blog'' ?rs ! 1) =
           (if (1::nat) = 0 then ''/media/'' @ ''blog'' else ''/media/'' @ ''blog'' @ ''/'' @ toString (1 + 1))
         \<and> map_of (ctx (mediaListPages ''blog'' ''Blog'' ?rs ! 1)) ''skip'' = Some (CNum (1 * pageSize))"
    by blast
  with len show ?thesis
    by (simp add: toString_2 pageSize_def)
qed

text \<open>
  C10: a media category (news included) whose query returns zero items gets no listing
  page at all, not even the unsuffixed base page: \<^verbatim>\<open>Math.ceil(0 / P)\<close> is 0 and the loop
  body never runs. Stated on the whole function: the list pages of that category (the news
  list pages, for news) among the registered pages are those that were there before.
\<close>

theorem zero_items_zero_listing_pages:
  assumes "errors (g AllPagesJson) = None"
  shows "(allMarkdownRemark (g (AllMarkdownRemark mt)) = [] \<longrightarrow>
            [p \<leftarrow> created (snd (createPages (Some g) True b)).
               component p = MediaListTemplate \<and> map_of (ctx p) ''mediaType'' = Some (CStr mt)] =
            [p \<leftarrow> created b.
               component p = MediaListTemplate \<and> map_of (ctx p) ''mediaType'' = Some (CStr mt)])
       \<and> (allMarkdownRemark (g (AllMarkdownRemark ''news'')) = [] \<longrightarrow>
            [p \<leftarrow> created (snd (createPages (Some g) True b)). component p = NewsListTemplate] =
            [p \<leftarrow> created b. component p = NewsListTemplate])
       \<and> mediaListPages mt title [] = [] \<and> newsListPages [] = []
       \<and> Math_ceil 0 pageSize = 0 \<and> Math_ceil 0 15 = 0"
proof -
  have c: "Math_ceil 0 pageSize = 0" "Math_ceil 0 15 = 0"
    by (simp_all add: Math_ceil_def pageSize_def)
  have e: "mediaListPages m t [] = []" "newsListPages [] = []" for m t
    by (simp_all add: mediaListPages_def newsListPages_def c)
  show ?thesis
    using assms
    by (simp add: createPages_media_list_pages createPages_news_pages c e split: option.splits)
qed

theorem zero_items_zero_listing_pages_witness:
  "created (snd (createPages
      (Some (\<lambda>q. \<lparr>errors = None,
                   allPagesJson = [\<lparr>navigation = Some \<lparr>link = Some ''/about''\<rparr>\<rparr>],
                   allMarkdownRemark = []\<rparr>))
      True \<lparr>created = [], console = []\<rparr>)) = [staticPage ''/about'']
   \<and> [p \<leftarrow> created (snd (createPages
      (Some (\<lambda>q. \<lparr>errors = None,
                   allPagesJson = [\<lparr>navigation = Some \<lparr>link = Some ''/about''\<rparr>\<rparr>],
                   allMarkdownRemark = []\<rparr>))
      True \<lparr>created = [], console = []\<rparr>)).
        component p = MediaListTemplate \<and> map_of (ctx p) ''mediaType'' = Some (CStr ''blog'')] = []
   \<and> [p \<leftarrow> created (snd (createPages
      (Some (\<lambda>q. \<lparr>errors = None,
                   allPagesJson = [\<lparr>navigation = Some \<lparr>link = Some ''/about''\<rparr>\<rparr>],
                   allMarkdownRemark = []\<rparr>))
      True \<lparr>created = [], console = []\<rparr>)). component p = NewsListTemplate] = []"
proof -
  let ?g = "\<lambda>q::query. \<lparr>errors = None,
                   allPagesJson = [\<lparr>navigation = Some \<lparr>link = Some ''/about''\<rparr>\<rparr>],
                   allMarkdownRemark = []\<rparr>"
  have h: "errors (?g AllPagesJson) = None"
    by simp
  have "created (snd (createPages (Some ?g) True \<lparr>created = [], console = []\<rparr>)) = [staticPage ''/about'']"
    by (simp add: createPages_created mediaRoutes_def staticRoutes_def mediaListPages_def
        mediaItemPages_def newsListPages_def Math_ceil_def pageSize_def)
  then show ?thesis
    using zero_items_zero_listing_pages [of ?g "''blog''" "\<lparr>created = [], console = []\<rparr>" "''Blog''", OF h]
    by simp
qed

text \<open>
  C4: a failed query for one media type only skips that media type (the error is logged, the
  loop goes on, and the pages of every other media type are registered as they would be
  without the failure), while a failed pages query or a failed news query makes
  \<^verbatim>\<open>createPages\<close> raise: the first before any page is registered, the second without any
  news list page.
\<close>

theorem query_error_handling:
  "(errors (g AllPagesJson) = Some es \<longrightarrow>
      fst (createPages (Some g) True b) = Raised (Error ''Failed to fetch pages'')
      \<and> created (snd (createPages (Some g) True b)) = created b)
   \<and> (errors (g AllPagesJson) = None \<and> errors (g (AllMarkdownRemark ''news'')) = Some es \<longrightarrow>
      fst (createPages (Some g) True b) = Raised (Error ''Failed to fetch news articles'')
      \<and> [p \<leftarrow> created (snd (createPages (Some g) True b)). component p = NewsListTemplate] =
        [p \<leftarrow> created b. component p = NewsListTemplate])
   \<and> (errors (g AllPagesJson) = None \<and> errors (g (AllMarkdownRemark ''news'')) = None \<longrightarrow>
      fst (createPages (Some g) True b) = Returned)
   \<and> (errors (g AllPagesJson) = None \<longrightarrow>
      created (snd (createPages (Some g) True b)) =
        created b @ staticRoutes (allPagesJson (g AllPagesJson))
        @ mediaRoutes g (''announcements'', ''Announcements'')
        @ mediaRoutes g (''blog'', ''Blog'')
        @ (case errors (g (AllMarkdownRemark ''news'')) of
             Some es \<Rightarrow> []
           | None \<Rightarrow> newsListPages (allMarkdownRemark (g (AllMarkdownRemark ''news'')))))
   \<and> (errors (g (AllMarkdownRemark mt)) = Some es \<longrightarrow>
      mediaRoutes g (mt, title) = []
      \<and> mediaStep g (mt, title) b = console_log (Log LError (''Error fetching '' @ mt @ '':'') es) b)
   \<and> (errors (g (AllMarkdownRemark mt)) = None \<longrightarrow>
      mediaRoutes g (mt, title) =
        mediaListPages mt title (allMarkdownRemark (g (AllMarkdownRemark mt)))
        @ mediaItemPages mt (allMarkdownRemark (g (AllMarkdownRemark mt))))"
proof (intro conjI impI)
  assume "errors (g AllPagesJson) = Some es"
  then show "fst (createPages (Some g) True b) = Raised (Error ''Failed to fetch pages'')"
    and "created (snd (createPages (Some g) True b)) = created b"
    by (simp_all add: createPages_def created_console_log)
next
  assume a: "errors (g AllPagesJson) = None \<and> errors (g (AllMarkdownRemark ''news'')) = Some es"
  then show "fst (createPages (Some g) True b) = Raised (Error ''Failed to fetch news articles'')"
    by (simp add: createPages_outcome)
  from a show "[p \<leftarrow> created (snd (createPages (Some g) True b)). component p = NewsListTemplate] =
        [p \<leftarrow> created b. component p = NewsListTemplate]"
    by (simp add: createPages_news_pages)
next
  assume "errors (g AllPagesJson) = None \<and> errors (g (AllMarkdownRemark ''news'')) = None"
  then show "fst (createPages (Some g) True b) = Returned"
    by (simp add: createPages_outcome)
next
  assume "errors (g AllPagesJson) = None"
  then show "created (snd (createPages (Some g) True b)) =
        created b @ staticRoutes (allPagesJson (g AllPagesJson))
        @ mediaRoutes g (''announcements'', ''Announcements'')
        @ mediaRoutes g (''blog'', ''Blog'')
        @ (case errors (g (AllMarkdownRemark ''news'')) of
             Some es \<Rightarrow> []
           | None \<Rightarrow> newsListPages (allMarkdownRemark (g (AllMarkdownRemark ''news''))))"
    by (rule createPages_created)
next
  assume "errors (g (AllMarkdownRemark mt)) = Some es"
  then show "mediaRoutes g (mt, title) = []"
    and "mediaStep g (mt, title) b = console_log (Log LError (''Error fetching '' @ mt @ '':'') es) b"
    by (simp_all add: mediaRoutes_def mediaStep_def)
next
  assume "errors (g (AllMarkdownRemark mt)) = None"
  then show "mediaRoutes g (mt, title) =
        mediaListPages mt title (allMarkdownRemark (g (AllMarkdownRemark mt)))
        @ mediaItemPages mt (allMarkdownRemark (g (AllMarkdownRemark mt)))"
    by (simp add: mediaRoutes_def)
qed


theorem query_error_handling_witness:
  "fst (createPages
     (Some (\<lambda>q. case q of
               AllPagesJson \<Rightarrow> \<lparr>errors = None, allPagesJson = [], allMarkdownRemark = []\<rparr>
             | AllMarkdownRemark t \<Rightarrow>
                 if t = ''announcements''
                 then \<lparr>errors = Some [''timeout''], allPagesJson = [], allMarkdownRemark = []\<rparr>
                 else if t = ''blog''
                 then \<lparr>errors = None, allPagesJson = [],
                       allMarkdownRemark = [\<lparr>node_fields = \<lparr>slug = ''hello'', externalLink = None\<rparr>\<rparr>]\<rparr>
                 else \<lparr>errors = None, allPagesJson = [], allMarkdownRemark = []\<rparr>))
     True \<lparr>created = [], console = []\<rparr>) = Returned
   \<and> map path (created (snd (createPages
     (Some (\<lambda>q. case q of
               AllPagesJson \<Rightarrow> \<lparr>errors = None, allPagesJson = [], allMarkdownRemark = []\<rparr>
             | AllMarkdownRemark t \<Rightarrow>
                 if t = ''announcements''
                 then \<lparr>errors = Some [''timeout''], allPagesJson = [], allMarkdownRemark = []\<rparr>
                 else if t = ''blog''
                 then \<lparr>errors = None, allPagesJson = [],
                       allMarkdownRemark = [\<lparr>node_fields = \<lparr>slug = ''hello'', externalLink = None\<rparr>\<rparr>]\<rparr>
                 else \<lparr>errors = None, allPagesJson = [], allMarkdownRemark = []\<rparr>))
     True \<lparr>created = [], console = []\<rparr>))) = [''/media/blog'', ''/media/blog/hello'']"
proof -
  let ?g = "\<lambda>q. case q of
               AllPagesJson \<Rightarrow> \<lparr>errors = None, allPagesJson = [], allMarkdownRemark = []\<rparr>
             | AllMarkdownRemark t \<Rightarrow>
                 if t = ''announcements''
                 then \<lparr>errors = Some [''timeout''], allPagesJson = [], allMarkdownRemark = []\<rparr>
                 else if t = ''blog''
                 then \<lparr>errors = None, allPagesJson = [],
                       allMarkdownRemark = [\<lparr>node_fields = \<lparr>slug = ''hello'', externalLink = None\<rparr>\<rparr>]\<rparr>
                 else \<lparr>errors = None, allPagesJson = [], allMarkdownRemark = []\<rparr>"
  let ?b = "\<lparr>created = [], console = []\<rparr>"
  note a = query_error_handling [of ?g "[''timeout'']" ?b "''announcements''" "''Announcements''"]
  note b = query_error_handling [of ?g "[''timeout'']" ?b "''blog''" "''Blog''"]
  have pages: "errors (?g AllPagesJson) = None"
    and news: "errors (?g (AllMarkdownRemark ''news'')) = None"
    and ann: "errors (?g (AllMarkdownRemark ''announcements'')) = Some [''timeout'']"
    and blog: "errors (?g (AllMarkdownRemark ''blog'')) = None"
    by simp_all
  from a pages news have ret: "fst (createPages (Some ?g) True ?b) = Returned"
    by blast
  from a ann have skipped: "mediaRoutes ?g (''announcements'', ''Announcements'') = []"
    by blast
  from b blog have kept: "mediaRoutes ?g (''blog'', ''Blog'') =
        mediaListPages ''blog'' ''Blog'' (allMarkdownRemark (?g (AllMarkdownRemark ''blog'')))
        @ mediaItemPages ''blog'' (allMarkdownRemark (?g (AllMarkdownRemark ''blog'')))"
    by blast
  from a pages have "created (snd (createPages (Some ?g) True ?b)) =
        created ?b @ staticRoutes (allPagesJson (?g AllPagesJson))
        @ mediaRoutes ?g (''announcements'', ''Announcements'')
        @ mediaRoutes ?g (''blog'', ''Blog'')
        @ (case errors (?g (AllMarkdownRemark ''news'')) of
             Some es \<Rightarrow> []
           | None \<Rightarrow> newsListPages (allMarkdownRemark (?g (AllMarkdownRemark ''news''))))"
    by blast
  then have "map path (created (snd (createPages (Some ?g) True ?b))) = [''/media/blog'', ''/media/blog/hello'']"
    unfolding skipped kept
    by (simp add: staticRoutes_def mediaListPages_def mediaItemPages_def newsListPages_def
        Math_ceil_def pageSize_def mediaListPage_def mediaPage_def)
  with ret show ?thesis
    by simp
qed

text \<open>
  C1 fails on the code: the guard \<^verbatim>\<open>!results[i].fields.externalLink\<close> is meant to leave out
  the items with an external link, but the query that produces \<^verbatim>\<open>results\<close> selects
  \<^verbatim>\<open>fields { slug }\<close> only. Every result item then lacks the field, the guard never fails,
  and a detail page is registered for every item: for 12 blog items of which one carries an
  external link, 12 detail pages and not 11.
\<close>

theorem external_link_is_never_selected:
  "externalLink (node_fields (media_query_selection r)) = None
   \<and> mediaItemPages mt (map media_query_selection items) =
       map (\<lambda>r. mediaPage mt (media_query_selection r)) items
   \<and> path (mediaPage mt (media_query_selection r)) = ''/media/'' @ mt @ ''/'' @ slug (node_fields r)
   \<and> length (mediaItemPages mt (map media_query_selection items)) = length items
   \<and> length (mediaItemPages ''blog'' (map media_query_selection
        (replicate 6 \<lparr>node_fields = \<lparr>slug = ''post'', externalLink = None\<rparr>\<rparr>
         @ [\<lparr>node_fields = \<lparr>slug = ''elsewhere'', externalLink = Some ''https://example.org''\<rparr>\<rparr>]
         @ replicate 5 \<lparr>node_fields = \<lparr>slug = ''post'', externalLink = None\<rparr>\<rparr>))) = 12
   \<and> length [p \<leftarrow> created (snd (createPages
        (Some (\<lambda>q. case q of
                 AllPagesJson \<Rightarrow> \<lparr>errors = None, allPagesJson = [], allMarkdownRemark = []\<rparr>
               | AllMarkdownRemark t \<Rightarrow>
                   if t = ''blog''
                   then \<lparr>errors = None, allPagesJson = [],
                         allMarkdownRemark = map media_query_selection
                           (replicate 6 \<lparr>node_fields = \<lparr>slug = ''post'', externalLink = None\<rparr>\<rparr>
                            @ [\<lparr>node_fields = \<lparr>slug = ''elsewhere'',
                                               externalLink = Some ''https://example.org''\<rparr>\<rparr>]
                            @ replicate 5 \<lparr>node_fields = \<lparr>slug = ''post'', externalLink = None\<rparr>\<rparr>)\<rparr>
                   else \<lparr>errors = None, allPagesJson = [], allMarkdownRemark = []\<rparr>))
        True \<lparr>created = [], console = []\<rparr>)).
          component p = MediaPageTemplate \<and> map_of (ctx p) ''mediaType'' = Some (CStr ''blog'')] = 12"
proof -
  let ?items = "replicate 6 \<lparr>node_fields = \<lparr>slug = ''post'', externalLink = None\<rparr>\<rparr>
         @ [\<lparr>node_fields = \<lparr>slug = ''elsewhere'', externalLink = Some ''https://example.org''\<rparr>\<rparr>]
         @ replicate 5 \<lparr>node_fields = \<lparr>slug = ''post'', externalLink = None\<rparr>\<rparr>"
  let ?b = "\<lparr>created = [], console = []\<rparr>"
  let ?g = "\<lambda>q. case q of
                 AllPagesJson \<Rightarrow> \<lparr>errors = None, allPagesJson = [], allMarkdownRemark = []\<rparr>
               | AllMarkdownRemark t \<Rightarrow>
                   if t = ''blog''
                   then \<lparr>errors = None, allPagesJson = [],
                         allMarkdownRemark = map media_query_selection ?items\<rparr>
                   else \<lparr>errors = None, allPagesJson = [], allMarkdownRemark = []\<rparr>"
  have sel: "externalLink (node_fields (media_query_selection x)) = None" for x
    by (simp add: media_query_selection_def)
  have all: "mediaItemPages m (map media_query_selection xs) =
       map (\<lambda>r. mediaPage m (media_query_selection r)) xs" for m xs
    by (simp add: mediaItemPages_def sel comp_def)
  have len: "length (mediaItemPages m (map media_query_selection xs)) = length xs" for m xs
    by (simp add: all)
  have n12: "length ?items = 12"
    by simp
  have twelve: "length (mediaItemPages ''blog'' (map media_query_selection ?items)) = 12"
    by (simp only: len n12)
  have pages: "errors (?g AllPagesJson) = None"
    and blog: "errors (?g (AllMarkdownRemark ''blog'')) = None"
    by simp_all
  have res: "allMarkdownRemark (?g (AllMarkdownRemark ''blog'')) = map media_query_selection ?items"
    by simp
  have "[p \<leftarrow> created (snd (createPages (Some ?g) True ?b)).
          component p = MediaPageTemplate \<and> map_of (ctx p) ''mediaType'' = Some (CStr ''blog'')] =
        mediaItemPages ''blog'' (allMarkdownRemark (?g (AllMarkdownRemark ''blog'')))"
    using createPages_media_item_pages [where g = ?g and b = ?b and mt = "''blog''", OF pages] blog
    by simp
  then have whole: "length [p \<leftarrow> created (snd (createPages (Some ?g) True ?b)).
          component p = MediaPageTemplate \<and> map_of (ctx p) ''mediaType'' = Some (CStr ''blog'')] = 12"
    by (simp only: res twelve)
  have p: "path (mediaPage mt (media_query_selection r)) = ''/media/'' @ mt @ ''/'' @ slug (node_fields r)"
    by (simp add: mediaPage_def media_query_selection_def)
  from sel all len twelve whole p show ?thesis
    by (intro conjI)
qed

section \<open>Properties of the markdown fields\<close>

lemma concat_map_concat_map:
  "concat (map g (concat (map h xs))) = concat (map (\<lambda>x. concat (map g (h x))) xs)"
  by (induction xs) simp_all

lemma createFieldsForObject_md_fields:
  "createFieldsForObject a n obj pth =
     concat (map (\<lambda>(ks, s). md_actions a n (path_of pth ks) (last ks) s) (md_fields obj))"
proof (induction a n obj pth rule: createFieldsForObject.induct)
  case (1 a n obj pth)
  have step: "(case kv of (key, value) \<Rightarrow>
        (let newPath = pth @ key
         in if typeof value = TString \<and> startsWith key ''md''
            then (let id = createNodeId a newPath;
                      mdNode = \<lparr>md_id = id,
                                md_key = key,
                                md_children = [],
                                md_parent = node_id n,
                                md_type = ''JsonMarkdownField'',
                                md_mediaType = ''text/markdown'',
                                md_content = string_of value,
                                md_contentDigest = createContentDigest a (string_of value)\<rparr>
                  in [CreateMdNode mdNode, CreateParentChildLink (node_id n) (md_id mdNode)])
            else if js_truthy value \<and> typeof value = TObject
            then createFieldsForObject a n value (newPath @ ''_'')
            else [])) =
     concat (map (\<lambda>(ks, s). md_actions a n (path_of pth ks) (last ks) s)
       (case kv of (key, value) \<Rightarrow>
        if typeof value = TString \<and> startsWith key ''md''
        then [([key], string_of value)]
        else if js_truthy value \<and> typeof value = TObject
        then map (\<lambda>(ks, s). (key # ks, s)) (md_fields value)
        else []))"
    if "kv \<in> set (Object_entries obj)" for kv
  proof (cases kv)
    case (Pair key val)
    show ?thesis
    proof (cases "typeof val = TString \<and> startsWith key ''md''")
      case True
      with Pair show ?thesis
        by (simp add: md_actions_def mdNode_def Let_def)
    next
      case False
      show ?thesis
      proof (cases "js_truthy val \<and> typeof val = TObject")
        case True
        have ne: "ks \<noteq> []" if "(ks, s) \<in> set (md_fields val)" for ks s
          using that
          by (subst (asm) md_fields.simps) (auto split: if_splits)
        have "createFieldsForObject a n val ((pth @ key) @ ''_'') =
              concat (map (\<lambda>(ks, s). md_actions a n (path_of ((pth @ key) @ ''_'') ks) (last ks) s) (md_fields val))"
          by (rule "1.IH" [OF that Pair [symmetric] refl False True])
        also have "\<dots> = concat (map (\<lambda>(ks, s). md_actions a n (path_of pth ks) (last ks) s)
                            (map (\<lambda>(ks, s). (key # ks, s)) (md_fields val)))"
          unfolding map_map
        proof (rule arg_cong [where f = concat], rule map_cong [OF refl])
          fix e
          assume e: "e \<in> set (md_fields val)"
          obtain ks s where eq: "e = (ks, s)" by (cases e)
          with e ne have "ks \<noteq> []" by blast
          then obtain k ks' where "ks = k # ks'" by (cases ks) auto
          with eq show "(case e of (ks, s) \<Rightarrow> md_actions a n (path_of ((pth @ key) @ ''_'') ks) (last ks) s) =
             ((\<lambda>(ks, s). md_actions a n (path_of pth ks) (last ks) s) \<circ> (\<lambda>(ks, s). (key # ks, s))) e"
            by simp
        qed
        finally show ?thesis
          using Pair False True by (simp add: Let_def)
      next
        case F2: False
        show ?thesis
          unfolding Pair Let_def prod.case if_not_P [OF False] if_not_P [OF F2] by simp
      qed
    qed
  qed
  show ?case
    apply (subst createFieldsForObject.simps)
    apply (subst md_fields.simps)
    apply (subst concat_map_concat_map)
    apply (rule arg_cong [where f = concat])
    apply (rule map_cong [OF refl])
    apply (erule step)
    done
qed

subsection \<open>Decimal rendering\<close>

lemma digit_inj: "a < 10 \<Longrightarrow> b < 10 \<Longrightarrow> digit a = digit b \<Longrightarrow> a = b"
proof -
  assume a: "a < 10" and b: "b < 10" and e: "digit a = digit b"
  have d: "distinct ''0123456789''"
    by simp
  have "a < length ''0123456789''" "b < length ''0123456789''"
    using a b by simp_all
  with d e show "a = b"
    unfolding digit_def by (simp only: nth_eq_iff_index_eq)
qed

lemma digit_mem: "d < 10 \<Longrightarrow> digit d \<in> set ''0123456789''"
  unfolding digit_def by (rule nth_mem) simp

lemma toString_nonempty: "toString n \<noteq> []"
  by (subst toString.simps) simp

lemma toString_inj: "toString m = toString n \<Longrightarrow> m = n"
proof (induction m arbitrary: n rule: toString.induct)
  case (1 m)
  show ?case
  proof (cases "m < 10")
    case True
    with "1.prems" have e: "[digit m] = toString n"
      by (subst (asm) toString.simps) simp
    have "n < 10"
    proof (rule ccontr)
      assume "\<not> n < 10"
      then have "toString n = toString (n div 10) @ [digit (n mod 10)]"
        by (subst toString.simps) simp
      with e toString_nonempty [of "n div 10"] show False
        by (cases "toString (n div 10)") simp_all
    qed
    then have "toString n = [digit n]"
      by (subst toString.simps) simp
    with e True \<open>n < 10\<close> show ?thesis
      by (simp add: digit_inj)
  next
    case False
    then have m: "toString m = toString (m div 10) @ [digit (m mod 10)]"
      by (subst toString.simps) simp
    have "\<not> n < 10"
    proof
      assume "n < 10"
      then have "toString n = [digit n]"
        by (subst toString.simps) simp
      with m "1.prems" toString_nonempty [of "m div 10"] show False
        by (cases "toString (m div 10)") simp_all
    qed
    then have n: "toString n = toString (n div 10) @ [digit (n mod 10)]"
      by (subst toString.simps) simp
    from m n "1.prems" have q: "toString (m div 10) = toString (n div 10)"
      and r: "digit (m mod 10) = digit (n mod 10)"
      by simp_all
    from "1.IH" [OF False q] have "m div 10 = n div 10" .
    moreover from r have "m mod 10 = n mod 10"
      by (rule digit_inj [rotated 2]) simp_all
    ultimately show ?thesis
      by (metis div_mult_mod_eq)
  qed
qed

lemma toString_no_sep: "CHR ''_'' \<notin> set (toString n)"
proof (induction n rule: toString.induct)
  case (1 n)
  have d: "CHR ''_'' \<noteq> digit k" if "k < 10" for k
    using digit_mem [OF that] by auto
  show ?case
  proof (cases "n < 10")
    case True
    then show ?thesis
      by (subst toString.simps) (simp add: d)
  next
    case False
    with "1.IH" show ?thesis
      by (subst toString.simps) (simp add: d)
  qed
qed

lemma distinct_index_keys: "distinct (map toString [0..<n])"
  by (simp add: distinct_map inj_on_def toString_inj)

subsection \<open>Entries of well-formed values\<close>

lemma wf_entries_distinct: "wf_json obj \<Longrightarrow> distinct (map fst (Object_entries obj))"
  by (cases obj) (simp_all add: distinct_index_keys)

lemma wf_entries_child: "wf_json obj \<Longrightarrow> (k, v) \<in> set (Object_entries obj) \<Longrightarrow> wf_json v"
proof (cases obj)
  case (JString str)
  assume "(k, v) \<in> set (Object_entries obj)"
  with JString have "v \<in> set (map (\<lambda>c. JString [c]) str)"
    by (auto dest: set_zip_rightD)
  then show ?thesis by auto
next
  case (JArray xs)
  assume "wf_json obj" and "(k, v) \<in> set (Object_entries obj)"
  with JArray show ?thesis
    by (auto simp: list_all_iff dest: set_zip_rightD)
qed (auto simp: list_all_iff)

lemma sep_free_child:
  "sep_free obj \<Longrightarrow> (k, v) \<in> set (Object_entries obj) \<Longrightarrow> CHR ''_'' \<notin> set k \<and> sep_free v"
proof (cases obj)
  case (JArray xs)
  assume s: "sep_free obj" and m: "(k, v) \<in> set (Object_entries obj)"
  from m JArray have "k \<in> set (map toString [0..<length xs])" and "v \<in> set xs"
    by (auto dest: set_zip_leftD set_zip_rightD)
  with s JArray show ?thesis
    by (auto simp: list_all_iff toString_no_sep)
next
  case (JString str)
  assume m: "(k, v) \<in> set (Object_entries obj)"
  with JString have "k \<in> set (map toString [0..<length str])" and "v \<in> set (map (\<lambda>c. JString [c]) str)"
    by (auto dest: set_zip_leftD set_zip_rightD)
  then show ?thesis
    by (auto simp: toString_no_sep)
qed (auto simp: list_all_iff)

subsection \<open>The markdown fields of a value\<close>

lemma typeof_string: "typeof v = TString \<longleftrightarrow> (\<exists>s. v = JString s)"
  by (cases v) simp_all

lemma md_fields_mem:
  "(ks, s) \<in> set (md_fields obj) \<longleftrightarrow>
     (\<exists>key val. (key, val) \<in> set (Object_entries obj) \<and>
        (typeof val = TString \<and> startsWith key ''md'' \<and> ks = [key] \<and> s = string_of val
         \<or> js_truthy val \<and> typeof val = TObject \<and>
              (\<exists>ks'. ks = key # ks' \<and> (ks', s) \<in> set (md_fields val))))"
proof -
  let ?F = "\<lambda>(key, value).
        if typeof value = TString \<and> startsWith key ''md''
        then [([key], string_of value)]
        else if js_truthy value \<and> typeof value = TObject
        then map (\<lambda>(ks, s). (key # ks, s)) (md_fields value)
        else []"
  have "(ks, s) \<in> set (md_fields obj) \<longleftrightarrow> (\<exists>kv \<in> set (Object_entries obj). (ks, s) \<in> set (?F kv))"
    by (subst md_fields.simps) simp
  also have "\<dots> \<longleftrightarrow> (\<exists>key val. (key, val) \<in> set (Object_entries obj) \<and> (ks, s) \<in> set (?F (key, val)))"
    by (simp only: Bex_def split_paired_Ex)
  also have "\<dots> \<longleftrightarrow> (\<exists>key val. (key, val) \<in> set (Object_entries obj) \<and>
        (typeof val = TString \<and> startsWith key ''md'' \<and> ks = [key] \<and> s = string_of val
         \<or> js_truthy val \<and> typeof val = TObject \<and>
              (\<exists>ks'. ks = key # ks' \<and> (ks', s) \<in> set (md_fields val))))"
  proof -
    have "(ks, s) \<in> set (?F (key, val)) \<longleftrightarrow>
        (typeof val = TString \<and> startsWith key ''md'' \<and> ks = [key] \<and> s = string_of val
         \<or> js_truthy val \<and> typeof val = TObject \<and>
              (\<exists>ks'. ks = key # ks' \<and> (ks', s) \<in> set (md_fields val)))" for key val
      by (cases "typeof val = TString") auto
    then show ?thesis by simp
  qed
  finally show ?thesis .
qed

lemma md_fields_nonempty: "(ks, s) \<in> set (md_fields obj) \<Longrightarrow> ks \<noteq> []"
  by (auto simp: md_fields_mem [of ks s obj])

lemma md_fields_iff_md_field_at:
  "(ks, s) \<in> set (md_fields obj) \<longleftrightarrow> md_field_at obj ks s"
proof (induction ks arbitrary: obj)
  case Nil
  show ?case
    using md_fields_nonempty [of "[]" s obj] by (auto simp: md_field_at_def)
next
  case (Cons k ks)
  show ?case
  proof (cases ks)
    case Nil
    have "(\<exists>val. (k, val) \<in> set (Object_entries obj) \<and> typeof val = TString \<and> startsWith k ''md''
            \<and> s = string_of val)
          \<longleftrightarrow> startsWith k ''md'' \<and> (k, JString s) \<in> set (Object_entries obj)"
      by (auto simp: typeof_string)
    moreover have "(k, JString s) \<in> set (Object_entries obj) \<longleftrightarrow> JString s \<in> set (values_at obj [k])"
      by force
    moreover have "([k], s) \<in> set (md_fields obj) \<longleftrightarrow>
        (\<exists>val. (k, val) \<in> set (Object_entries obj) \<and> typeof val = TString \<and> startsWith k ''md''
            \<and> s = string_of val)"
      using md_fields_nonempty [of "[]" s]
      by (subst md_fields_mem) auto
    ultimately show ?thesis
      using Nil by (simp add: md_field_at_def)
  next
    case (Cons k2 ks2)
    have l: "([k] = k # ks) = False"
      using Cons by simp
    have "(k # ks, s) \<in> set (md_fields obj) \<longleftrightarrow>
       (\<exists>val. (k, val) \<in> set (Object_entries obj) \<and> js_truthy val \<and> typeof val = TObject
          \<and> (ks, s) \<in> set (md_fields val))"
      using Cons by (subst md_fields_mem) auto
    also have "\<dots> \<longleftrightarrow> (\<exists>val. (k, val) \<in> set (Object_entries obj) \<and> js_truthy val \<and> typeof val = TObject
          \<and> md_field_at val ks s)"
      by (simp add: Cons.IH)
    also have "\<dots> \<longleftrightarrow> md_field_at obj (k # ks) s"
      using Cons by (force simp: md_field_at_def)
    finally show ?thesis .
  qed
qed

lemma distinct_concat_keyed:
  assumes "distinct (map fst kvs)"
    and "\<And>kv. kv \<in> set kvs \<Longrightarrow> distinct (G kv)"
    and "\<And>kv x. kv \<in> set kvs \<Longrightarrow> x \<in> set (G kv) \<Longrightarrow> x \<noteq> [] \<and> hd x = fst kv"
  shows "distinct (concat (map G kvs))"
  using assms
proof (induction kvs)
  case Nil
  show ?case by simp
next
  case (Cons kv kvs)
  have "set (G kv) \<inter> set (concat (map G kvs)) = {}"
  proof (rule ccontr)
    assume "set (G kv) \<inter> set (concat (map G kvs)) \<noteq> {}"
    then obtain x kv' where x: "x \<in> set (G kv)" and kv': "kv' \<in> set kvs" and x': "x \<in> set (G kv')"
      by auto
    from Cons.prems(3) [of kv x] x have "hd x = fst kv" by simp
    moreover from Cons.prems(3) [of kv' x] kv' x' have "hd x = fst kv'" by simp
    ultimately have "fst kv \<in> fst ` set kvs"
      using kv' by (metis imageI)
    with Cons.prems(1) show False by simp
  qed
  moreover have "distinct (G kv)"
    using Cons.prems(2) by simp
  moreover have "distinct (concat (map G kvs))"
  proof (rule Cons.IH)
    show "distinct (map fst kvs)"
      using Cons.prems(1) by simp
    show "distinct (G kv')" if "kv' \<in> set kvs" for kv'
      using Cons.prems(2) [of kv'] that by simp
    show "x \<noteq> [] \<and> hd x = fst kv'" if "kv' \<in> set kvs" "x \<in> set (G kv')" for kv' x
      using Cons.prems(3) [of kv' x] that by simp
  qed
  ultimately show ?case by simp
qed

lemma md_fields_distinct: "wf_json obj \<Longrightarrow> distinct (map fst (md_fields obj))"
proof (induction obj rule: md_fields.induct)
  case (1 obj)
  let ?F = "\<lambda>(key, value).
        if typeof value = TString \<and> startsWith key ''md''
        then [([key], string_of value)]
        else if js_truthy value \<and> typeof value = TObject
        then map (\<lambda>(ks, s). (key # ks, s)) (md_fields value)
        else []"
  let ?G = "\<lambda>kv. map fst (?F kv)"
  have eq: "map fst (md_fields obj) = concat (map ?G (Object_entries obj))"
    by (subst md_fields.simps) (simp add: map_concat comp_def)
  have "distinct (concat (map ?G (Object_entries obj)))"
  proof (rule distinct_concat_keyed)
    show "distinct (map fst (Object_entries obj))"
      using "1.prems" by (rule wf_entries_distinct)
  next
    fix kv
    assume kv: "kv \<in> set (Object_entries obj)"
    obtain key val where p: "kv = (key, val)" by (cases kv)
    show "distinct (?G kv)"
    proof (cases "\<not> (typeof val = TString \<and> startsWith key ''md'') \<and> js_truthy val \<and> typeof val = TObject")
      case True
      have "wf_json val"
        using "1.prems" kv p by (auto intro: wf_entries_child)
      with "1.IH" [OF kv p [symmetric]] True have "distinct (map fst (md_fields val))"
        by simp
      then have d: "distinct (map (Cons key) (map fst (md_fields val)))"
        by (subst distinct_map) (simp add: inj_on_def)
      have "?G kv = map (Cons key) (map fst (md_fields val))"
        using True p by (simp add: comp_def case_prod_beta)
      with d show ?thesis
        by (simp only:)
    next
      case False
      with p show ?thesis by auto
    qed
  next
    fix kv x
    assume "kv \<in> set (Object_entries obj)" and "x \<in> set (?G kv)"
    then show "x \<noteq> [] \<and> hd x = fst kv"
      by (cases kv) (auto split: if_splits)
  qed
  with eq show ?case by simp
qed

lemma md_actions_mdNode:
  "md_actions a n newPath key s =
     [CreateMdNode (mdNode a n newPath key s), CreateParentChildLink (node_id n) (createNodeId a newPath)]"
  by (simp add: md_actions_def)

lemma md_nodes_of_append: "md_nodes_of (xs @ ys) = md_nodes_of xs @ md_nodes_of ys"
  by (induction xs rule: md_nodes_of.induct) simp_all

lemma svg_nodes_of_append: "svg_nodes_of (xs @ ys) = svg_nodes_of xs @ svg_nodes_of ys"
  by (induction xs rule: svg_nodes_of.induct) simp_all

lemma md_nodes_of_concat_md_actions:
  "md_nodes_of (concat (map (\<lambda>(ks, s). md_actions a n (f ks) (g ks) s) fs)) =
     map (\<lambda>(ks, s). mdNode a n (f ks) (g ks) s) fs"
  by (induction fs) (auto simp: md_nodes_of_append md_actions_mdNode)

lemma svg_nodes_of_concat_md_actions:
  "svg_nodes_of (concat (map (\<lambda>(ks, s). md_actions a n (f ks) (g ks) s) fs)) = []"
  by (induction fs) (auto simp: svg_nodes_of_append md_actions_mdNode)

lemma md_nodes_of_createFieldsForObject:
  "md_nodes_of (createFieldsForObject a n obj pth) =
     map (\<lambda>(ks, s). mdNode a n (path_of pth ks) (last ks) s) (md_fields obj)"
  by (simp only: createFieldsForObject_md_fields md_nodes_of_concat_md_actions)

lemma svg_nodes_of_createFieldsForObject:
  "svg_nodes_of (createFieldsForObject a n obj pth) = []"
  by (simp only: createFieldsForObject_md_fields svg_nodes_of_concat_md_actions)

subsection \<open>Evaluating the traversal on an object literal\<close>

lemma md_fields_JObject_Nil: "md_fields (JObject []) = []"
  by (subst md_fields.simps) simp

lemma md_fields_JObject_Cons:
  "md_fields (JObject ((key, val) # kvs)) =
     (if typeof val = TString \<and> startsWith key ''md''
      then [([key], string_of val)]
      else if js_truthy val \<and> typeof val = TObject
      then map (\<lambda>(ks, s). (key # ks, s)) (md_fields val)
      else []) @ md_fields (JObject kvs)"
  by (subst md_fields.simps, subst (3) md_fields.simps) simp

subsection \<open>Paths\<close>

lemma path_of_prefix: "path_of p ks = p @ path_of [] ks"
proof (induction ks arbitrary: p)
  case Nil
  show ?case by simp
next
  case (Cons k ks)
  show ?case
  proof (cases ks)
    case Nil
    then show ?thesis by simp
  next
    case (Cons k2 ks2)
    have "path_of p (k # ks) = (p @ k @ ''_'') @ path_of [] ks"
      using Cons Cons.IH [of "p @ k @ ''_''"] by simp
    moreover have "path_of [] (k # ks) = (k @ ''_'') @ path_of [] ks"
      using Cons Cons.IH [of "k @ ''_''"] by simp
    ultimately show ?thesis by simp
  qed
qed

lemma path_of_Cons:
  "ks \<noteq> [] \<Longrightarrow> path_of [] (k # ks) = k @ CHR ''_'' # path_of [] ks"
  using path_of_prefix [of "k @ ''_''" ks] by (cases ks) simp_all

lemma split_at_sep:
  "c \<notin> set xs \<Longrightarrow> c \<notin> set ys \<Longrightarrow> xs @ c # r = ys @ c # r' \<Longrightarrow> xs = ys \<and> r = r'"
proof (induction xs arbitrary: ys)
  case Nil
  then show ?case by (cases ys) auto
next
  case (Cons x xs)
  then show ?case by (cases ys) auto
qed

lemma path_of_inj_aux:
  assumes "ks \<noteq> []" and "ks' \<noteq> []"
    and "\<forall>k \<in> set ks. CHR ''_'' \<notin> set k" and "\<forall>k \<in> set ks'. CHR ''_'' \<notin> set k"
    and "path_of [] ks = path_of [] ks'"
  shows "ks = ks'"
  using assms
proof (induction ks arbitrary: ks')
  case Nil
  then show ?case by simp
next
  case (Cons k ks)
  from Cons.prems(2) obtain k' r' where ks': "ks' = k' # r'"
    by (cases ks') auto
  show ?case
  proof (cases "ks = []")
    case True
    show ?thesis
    proof (cases "r' = []")
      case True
      with \<open>ks = []\<close> ks' Cons.prems(5) show ?thesis by simp
    next
      case False
      with True ks' Cons.prems(5) have "k = k' @ CHR ''_'' # path_of [] r'"
        by (simp add: path_of_Cons)
      with Cons.prems(3) show ?thesis by simp
    qed
  next
    case False
    show ?thesis
    proof (cases "r' = []")
      case True
      with False ks' Cons.prems(5) have "k' = k @ CHR ''_'' # path_of [] ks"
        by (simp add: path_of_Cons)
      with Cons.prems(4) ks' show ?thesis by simp
    next
      case r': False
      from False r' ks' Cons.prems(5)
      have "k @ CHR ''_'' # path_of [] ks = k' @ CHR ''_'' # path_of [] r'"
        by (simp add: path_of_Cons)
      moreover have "CHR ''_'' \<notin> set k" "CHR ''_'' \<notin> set k'"
        using Cons.prems(3,4) ks' by simp_all
      ultimately have "k = k' \<and> path_of [] ks = path_of [] r'"
        by (intro split_at_sep [of "CHR ''_''"])
      then have "k = k'" and "path_of [] ks = path_of [] r'"
        by simp_all
      moreover from this(2) have "ks = r'"
        using False r' Cons.prems(3,4) ks' by (intro Cons.IH) simp_all
      ultimately show ?thesis
        using ks' by simp
    qed
  qed
qed

lemma path_of_inj:
  assumes "ks \<noteq> []" and "ks' \<noteq> []"
    and "\<forall>k \<in> set ks. CHR ''_'' \<notin> set k" and "\<forall>k \<in> set ks'. CHR ''_'' \<notin> set k"
    and "path_of p ks = path_of p ks'"
  shows "ks = ks'"
proof -
  from assms(5) have "path_of [] ks = path_of [] ks'"
    using path_of_prefix [of p ks] path_of_prefix [of p ks'] by simp
  with assms(1-4) show ?thesis
    by (rule path_of_inj_aux)
qed

lemma md_fields_sep_free:
  "sep_free obj \<Longrightarrow> (ks, s) \<in> set (md_fields obj) \<Longrightarrow> \<forall>k \<in> set ks. CHR ''_'' \<notin> set k"
proof (induction ks arbitrary: obj)
  case Nil
  show ?case by simp
next
  case (Cons k ks)
  from md_fields_mem [THEN iffD1, OF Cons.prems(2)]
  obtain val where e: "(k, val) \<in> set (Object_entries obj)"
    and d: "ks = [] \<or> (ks, s) \<in> set (md_fields val)"
    by auto
  from sep_free_child [OF Cons.prems(1) e] have k: "CHR ''_'' \<notin> set k" and v: "sep_free val"
    by simp_all
  from d show ?case
  proof
    assume "ks = []"
    with k show ?thesis by simp
  next
    assume "(ks, s) \<in> set (md_fields val)"
    with Cons.IH [OF v] k show ?thesis by simp
  qed
qed

lemma md_ids_distinct:
  assumes "wf_json obj" and "sep_free obj" and "inj (createNodeId a)"
  shows "distinct (map (\<lambda>(ks, s). createNodeId a (path_of pth ks)) (md_fields obj))"
proof -
  have "distinct (map ((\<lambda>ks. createNodeId a (path_of pth ks)) \<circ> fst) (md_fields obj))"
    unfolding map_map [symmetric]
  proof (subst distinct_map, intro conjI)
    show "distinct (map fst (md_fields obj))"
      using assms(1) by (rule md_fields_distinct)
    show "inj_on (\<lambda>ks. createNodeId a (path_of pth ks)) (set (map fst (md_fields obj)))"
    proof (rule inj_onI)
      fix ks ks'
      assume ks: "ks \<in> set (map fst (md_fields obj))" and ks': "ks' \<in> set (map fst (md_fields obj))"
        and e: "createNodeId a (path_of pth ks) = createNodeId a (path_of pth ks')"
      from ks obtain s where s: "(ks, s) \<in> set (md_fields obj)" by auto
      from ks' obtain s' where s': "(ks', s') \<in> set (md_fields obj)" by auto
      from e assms(3) have "path_of pth ks = path_of pth ks'"
        by (simp add: inj_eq)
      then show "ks = ks'"
        using md_fields_nonempty [OF s] md_fields_nonempty [OF s']
          md_fields_sep_free [OF assms(2) s] md_fields_sep_free [OF assms(2) s']
        by (intro path_of_inj)
    qed
  qed
  moreover have "map (\<lambda>(ks, s). createNodeId a (path_of pth ks)) (md_fields obj) =
      map ((\<lambda>ks. createNodeId a (path_of pth ks)) \<circ> fst) (md_fields obj)"
    by (rule map_cong) auto
  ultimately show ?thesis
    by (simp only:)
qed

section \<open>Properties of node processing\<close>

lemma node_fields_of_append: "node_fields_of (xs @ ys) = node_fields_of xs @ node_fields_of ys"
  by (induction xs rule: node_fields_of.induct) simp_all

lemma node_fields_of_concat_md_actions:
  "node_fields_of (concat (map (\<lambda>(ks, s). md_actions a n (f ks) (g ks) s) fs)) = []"
  by (induction fs) (auto simp: node_fields_of_append md_actions_mdNode)

lemma node_fields_of_createFieldsForObject:
  "node_fields_of (createFieldsForObject a n obj pth) = []"
  by (simp only: createFieldsForObject_md_fields node_fields_of_concat_md_actions)

lemma svg_branch_empty:
  "loadNodeContent a n = Inr [] \<Longrightarrow>
   svg_branch a n = Inr [Console (Log LWarn (''Empty content for SVG file: '' @ node_id n) [])]"
  by (simp add: svg_branch_def svg_try_def)

lemma svg_branch_load_failed:
  "loadNodeContent a n = Inl r \<Longrightarrow>
   svg_branch a n =
     (case read_message r of
        Inl e \<Rightarrow> Inl e
      | Inr m \<Rightarrow> Inr [Console (LogValue LError (''Error processing SVG file '' @ node_id n @ '':'') m)])"
  by (simp add: svg_branch_def svg_try_def)

lemma svg_branch_optimize_failed:
  "loadNodeContent a n = Inr c \<Longrightarrow> c \<noteq> [] \<Longrightarrow> svgo_optimize a c = Inl r \<Longrightarrow>
   svg_branch a n =
     (case read_message r of
        Inl e \<Rightarrow> Inl e
      | Inr m \<Rightarrow> Inr [Console (LogValue LError (''Error processing SVG file '' @ node_id n @ '':'') m)])"
  by (simp add: svg_branch_def svg_try_def)

lemma svg_branch_created:
  "loadNodeContent a n = Inr c \<Longrightarrow> c \<noteq> [] \<Longrightarrow> svgo_optimize a c = Inr rawSvg \<Longrightarrow>
   svg_branch a n =
     Inr [CreateSvgNode \<lparr>svg_id = createNodeId a (node_id n),
                         svg_children = [],
                         svg_rawSvg = rawSvg,
                         svg_parent = node_id n,
                         svg_type = ''InlineSvg'',
                         svg_contentDigest = createContentDigest a rawSvg\<rparr>,
          CreateParentChildLink (node_id n) (createNodeId a (node_id n))]"
  by (simp add: svg_branch_def svg_try_def Let_def)

lemma svg_branch_acts:
  assumes "svg_branch a n = Inr acts"
  shows "md_nodes_of acts = [] \<and> node_fields_of acts = []"
proof (cases "loadNodeContent a n")
  case (Inl r)
  with assms show ?thesis
    by (cases "read_message r") (auto simp: svg_branch_load_failed)
next
  case (Inr c)
  show ?thesis
  proof (cases "c = []")
    case True
    with Inr assms show ?thesis
      by (auto simp: svg_branch_empty)
  next
    case False
    show ?thesis
    proof (cases "svgo_optimize a c")
      case (Inl r)
      with Inr False assms show ?thesis
        by (cases "read_message r") (auto simp: svg_branch_optimize_failed)
    next
      case o: (Inr rawSvg)
      with Inr False assms show ?thesis
        by (auto simp: svg_branch_created)
    qed
  qed
qed

lemma PagesJson_slugged: "''PagesJson'' \<in> set typesToSlug"
  by (simp add: typesToSlug_def)

lemma onCreateNode_early:
  "internal_type n \<in> set typesToSlug \<Longrightarrow> getNode a (parent n) = None \<Longrightarrow>
   onCreateNode a (Some n) True =
     (Returned, [Console (Log LWarn (''Parent file node not found for node: '' @ node_id n) [])])"
  by (simp add: onCreateNode_def)

lemma onCreateNode_normal:
  "\<not> (internal_type n \<in> set typesToSlug \<and> getNode a (parent n) = None) \<Longrightarrow>
   onCreateNode a (Some n) True =
     (if is_svg n
      then (case svg_branch a n of
              Inr svg_acts \<Rightarrow> (Returned, before_svg a n @ svg_acts)
            | Inl e \<Rightarrow> (Raised e, before_svg a n))
      else (Returned, before_svg a n))"
  by (cases "internal_type n \<in> set typesToSlug"; cases "getNode a (parent n)";
      cases "svg_branch a n")
     (simp_all add: onCreateNode_def before_svg_def Let_def)

lemma onCreateNode_outcome:
  "fst (onCreateNode a (Some n) True) =
     (if \<not> (internal_type n \<in> set typesToSlug \<and> getNode a (parent n) = None) \<and> is_svg n
      then (case svg_branch a n of Inr svg_acts \<Rightarrow> Returned | Inl e \<Rightarrow> Raised e)
      else Returned)"
proof (cases "internal_type n \<in> set typesToSlug \<and> getNode a (parent n) = None")
  case True
  then show ?thesis
    by (simp add: onCreateNode_early)
next
  case False
  then show ?thesis
    by (simp add: onCreateNode_normal split: sum.splits)
qed

lemma md_nodes_of_before_svg:
  "md_nodes_of (before_svg a n) =
     (if internal_type n = ''PagesJson''
      then map (\<lambda>(ks, s). mdNode a n (path_of (node_id n @ ''_'') ks) (last ks) s)
             (md_fields (JObject (node_entries n)))
      else [])"
  by (simp add: before_svg_def md_nodes_of_append md_nodes_of_createFieldsForObject
      split: option.splits)

lemma node_fields_of_before_svg:
  "node_fields_of (before_svg a n) =
     (if internal_type n \<in> set typesToSlug
      then (case getNode a (parent n) of Some f \<Rightarrow> [(node_id n, ''slug'', name f)] | None \<Rightarrow> [])
      else [])"
  by (simp add: before_svg_def node_fields_of_append node_fields_of_createFieldsForObject
      split: option.splits)

lemma onCreateNode_before_svg:
  assumes "\<not> (internal_type n \<in> set typesToSlug \<and> getNode a (parent n) = None)"
  shows "md_nodes_of (snd (onCreateNode a (Some n) True)) = md_nodes_of (before_svg a n)
       \<and> node_fields_of (snd (onCreateNode a (Some n) True)) = node_fields_of (before_svg a n)"
proof (cases "is_svg n")
  case False
  with assms show ?thesis
    by (simp add: onCreateNode_normal)
next
  case True
  show ?thesis
  proof (cases "svg_branch a n")
    case (Inl e)
    with assms True show ?thesis
      by (simp add: onCreateNode_normal)
  next
    case (Inr acts)
    with assms True svg_branch_acts [OF Inr] show ?thesis
      by (simp add: onCreateNode_normal md_nodes_of_append node_fields_of_append)
  qed
qed

lemma onCreateNode_md_nodes:
  "md_nodes_of (snd (onCreateNode a (Some n) True)) =
     (if internal_type n = ''PagesJson'' \<and> getNode a (parent n) \<noteq> None
      then map (\<lambda>(ks, s). mdNode a n (path_of (node_id n @ ''_'') ks) (last ks) s)
             (md_fields (JObject (node_entries n)))
      else [])"
proof (cases "internal_type n \<in> set typesToSlug \<and> getNode a (parent n) = None")
  case True
  then show ?thesis
    by (simp add: onCreateNode_early)
next
  case False
  with PagesJson_slugged show ?thesis
    by (auto simp: onCreateNode_before_svg md_nodes_of_before_svg)
qed

lemma md_fields_entries: "md_fields obj = md_fields (JObject (Object_entries obj))"
  by (subst md_fields.simps, subst (2) md_fields.simps) simp

lemma toString_0: "toString 0 = ''0''"
  by (simp add: toString.simps digit_def)

text \<open>
  C7: for a node whose type is one of \<^verbatim>\<open>MarkdownRemark\<close>, \<^verbatim>\<open>PagesJson\<close>, \<^verbatim>\<open>ContentJson\<close>:
  when \<^verbatim>\<open>getNode(node.parent)\<close> gives a file node, the one node field created is \<^verbatim>\<open>slug\<close>
  on that node, with the file node's \<^verbatim>\<open>name\<close> as its value, and the function returns
  normally unless the node is an SVG node too and the SVG branch raises; when
  \<^verbatim>\<open>getNode\<close> gives none, the function logs a warning, creates nothing and returns normally.
\<close>

theorem slug_is_parent_file_name:
  assumes "internal_type n \<in> set typesToSlug"
  shows "typesToSlug = [''MarkdownRemark'', ''PagesJson'', ''ContentJson'']
       \<and> (getNode a (parent n) = Some f \<longrightarrow>
            node_fields_of (snd (onCreateNode a (Some n) True)) = [(node_id n, ''slug'', name f)]
            \<and> fst (onCreateNode a (Some n) True) =
                (if is_svg n
                 then (case svg_branch a n of Inr svg_acts \<Rightarrow> Returned | Inl e \<Rightarrow> Raised e)
                 else Returned))
       \<and> (getNode a (parent n) = None \<longrightarrow>
            onCreateNode a (Some n) True =
              (Returned, [Console (Log LWarn (''Parent file node not found for node: '' @ node_id n) [])]))"
proof (intro conjI impI)
  show "typesToSlug = [''MarkdownRemark'', ''PagesJson'', ''ContentJson'']"
    by (simp add: typesToSlug_def)
next
  assume f: "getNode a (parent n) = Some f"
  then have ne: "\<not> (internal_type n \<in> set typesToSlug \<and> getNode a (parent n) = None)"
    by simp
  from onCreateNode_before_svg [OF ne] assms f
  show "node_fields_of (snd (onCreateNode a (Some n) True)) = [(node_id n, ''slug'', name f)]"
    by (simp add: node_fields_of_before_svg)
  from f show "fst (onCreateNode a (Some n) True) =
                (if is_svg n
                 then (case svg_branch a n of Inr svg_acts \<Rightarrow> Returned | Inl e \<Rightarrow> Raised e)
                 else Returned)"
    by (simp add: onCreateNode_outcome)
next
  assume "getNode a (parent n) = None"
  with assms show "onCreateNode a (Some n) True =
              (Returned, [Console (Log LWarn (''Parent file node not found for node: '' @ node_id n) [])])"
    by (rule onCreateNode_early)
qed

theorem slug_is_parent_file_name_witness:
  "node_fields_of (snd (onCreateNode identity_host
      (Some \<lparr>node_id = ''n1'', parent = Some ''f1'', internal_type = ''MarkdownRemark'',
             internal_mediaType = Some ''text/markdown'', node_entries = []\<rparr>) True))
   = [(''n1'', ''slug'', ''index'')]
   \<and> fst (onCreateNode identity_host
      (Some \<lparr>node_id = ''n1'', parent = Some ''f1'', internal_type = ''MarkdownRemark'',
             internal_mediaType = Some ''text/markdown'', node_entries = []\<rparr>) True) = Returned"
proof -
  let ?n = "\<lparr>node_id = ''n1'', parent = Some ''f1'', internal_type = ''MarkdownRemark'',
             internal_mediaType = Some ''text/markdown'', node_entries = []\<rparr>"
  have t: "internal_type ?n \<in> set typesToSlug"
    by (simp add: typesToSlug_def)
  have g: "getNode identity_host (parent ?n) = Some \<lparr>name = ''index''\<rparr>"
    by (simp add: identity_host_def)
  have s: "\<not> is_svg ?n"
    by (simp add: is_svg_def)
  from slug_is_parent_file_name [OF t, of identity_host "\<lparr>name = ''index''\<rparr>"] g s
  show ?thesis by simp
qed

text \<open>
  What the \<^verbatim>\<open>catch\<close> does hold back: for an SVG node whose content is empty, or whose
  loading or optimisation fails with an error object or a string, no \<^verbatim>\<open>InlineSvg\<close> node is
  created, a diagnostic is written to the console (with \<^verbatim>\<open>undefined\<close> for the message of a
  string), and \<^verbatim>\<open>onCreateNode\<close> returns normally.
\<close>

lemma svg_failure_caught:
  assumes "is_svg n"
    and "loadNodeContent a n = Inr []
         \<or> (\<exists>r. loadNodeContent a n = Inl r \<and> r \<noteq> NullReason \<and> r \<noteq> UndefinedReason)
         \<or> (\<exists>c r. loadNodeContent a n = Inr c \<and> c \<noteq> [] \<and> svgo_optimize a c = Inl r
               \<and> r \<noteq> NullReason \<and> r \<noteq> UndefinedReason)"
  shows "fst (onCreateNode a (Some n) True) = Returned
       \<and> svg_nodes_of (snd (onCreateNode a (Some n) True)) = []
       \<and> (\<exists>l. Console l \<in> set (snd (onCreateNode a (Some n) True)))"
proof -
  have m: "\<exists>v. read_message r = Inr v" if "r \<noteq> NullReason" "r \<noteq> UndefinedReason" for r
    using that by (cases r) simp_all
  have b: "\<exists>l. svg_branch a n = Inr [Console l]"
    using assms(2)
  proof (elim disjE exE conjE)
    assume "loadNodeContent a n = Inr []"
    then show ?thesis
      by (simp add: svg_branch_empty)
  next
    fix r
    assume "loadNodeContent a n = Inl r" "r \<noteq> NullReason" "r \<noteq> UndefinedReason"
    with m [of r] show ?thesis
      by (auto simp: svg_branch_load_failed)
  next
    fix c r
    assume "loadNodeContent a n = Inr c" "c \<noteq> []" "svgo_optimize a c = Inl r"
      "r \<noteq> NullReason" "r \<noteq> UndefinedReason"
    with m [of r] show ?thesis
      by (auto simp: svg_branch_optimize_failed)
  qed
  then obtain l where l: "svg_branch a n = Inr [Console l]" ..
  show ?thesis
  proof (cases "internal_type n \<in> set typesToSlug \<and> getNode a (parent n) = None")
    case True
    then show ?thesis
      by (simp add: onCreateNode_early)
  next
    case False
    have "svg_nodes_of (before_svg a n) = []"
      by (simp add: before_svg_def svg_nodes_of_append svg_nodes_of_createFieldsForObject
          split: option.splits)
    with False assms(1) l show ?thesis
      by (auto simp: onCreateNode_normal svg_nodes_of_append)
  qed
qed



text \<open>
  C5: the markdown nodes created for a payload are, in order, one node per markdown field
  of the payload: the key paths of \<open>md_fields\<close> are pairwise distinct and are exactly the key
  paths that lead, through objects and arrays, to a string under a key starting with
  \<^verbatim>\<open>md\<close>. The actions depend only on the payload, the path prefix, the node id and the
  two functions \<^verbatim>\<open>createNodeId\<close> and \<^verbatim>\<open>createContentDigest\<close>, so that a second run on
  the same payload creates nodes with the same identifiers and digests. On
  \<^verbatim>\<open>onCreateNode\<close> these are the markdown nodes of a \<^verbatim>\<open>PagesJson\<close> node whose parent file
  node is found.
\<close>

theorem markdown_fields_extracted_once:
  assumes "wf_json obj"
  shows "md_nodes_of (createFieldsForObject a n obj pth) =
           map (\<lambda>(ks, s). mdNode a n (path_of pth ks) (last ks) s) (md_fields obj)
       \<and> distinct (map fst (md_fields obj))
       \<and> (\<forall>ks s. (ks, s) \<in> set (md_fields obj) \<longleftrightarrow> md_field_at obj ks s)
       \<and> (createNodeId a' = createNodeId a \<and> createContentDigest a' = createContentDigest a
            \<and> node_id n' = node_id n \<longrightarrow>
          createFieldsForObject a' n' obj pth = createFieldsForObject a n obj pth)
       \<and> (internal_type n = ''PagesJson'' \<and> getNode a (parent n) \<noteq> None \<longrightarrow>
          md_nodes_of (snd (onCreateNode a (Some n) True)) =
            map (\<lambda>(ks, s). mdNode a n (path_of (node_id n @ ''_'') ks) (last ks) s)
              (md_fields (JObject (node_entries n))))"
proof (intro conjI allI impI)
  assume "internal_type n = ''PagesJson'' \<and> getNode a (parent n) \<noteq> None"
  then show "md_nodes_of (snd (onCreateNode a (Some n) True)) =
            map (\<lambda>(ks, s). mdNode a n (path_of (node_id n @ ''_'') ks) (last ks) s)
              (md_fields (JObject (node_entries n)))"
    by (simp add: onCreateNode_md_nodes)
next
  show "md_nodes_of (createFieldsForObject a n obj pth) =
           map (\<lambda>(ks, s). mdNode a n (path_of pth ks) (last ks) s) (md_fields obj)"
    by (rule md_nodes_of_createFieldsForObject)
  show "distinct (map fst (md_fields obj))"
    using assms by (rule md_fields_distinct)
  show "(ks, s) \<in> set (md_fields obj) \<longleftrightarrow> md_field_at obj ks s" for ks s
    by (rule md_fields_iff_md_field_at)
  assume "createNodeId a' = createNodeId a \<and> createContentDigest a' = createContentDigest a
            \<and> node_id n' = node_id n"
  then show "createFieldsForObject a' n' obj pth = createFieldsForObject a n obj pth"
    by (simp add: createFieldsForObject_md_fields md_actions_def mdNode_def)
qed

theorem markdown_fields_extracted_once_witness:
  "map (\<lambda>m. (md_id m, md_key m, md_content m, md_contentDigest m))
     (md_nodes_of (createFieldsForObject identity_host
        \<lparr>node_id = ''p1'', parent = Some ''f1'', internal_type = ''PagesJson'',
           internal_mediaType = None, node_entries = []\<rparr>
        (JObject [(''title'', JString ''Home''),
                  (''mdIntro'', JString ''# Hello''),
                  (''sections'', JArray [JObject [(''type'', JString ''text''), (''mdMain'', JString ''Body'')]]),
                  (''mdCount'', JNumber 3)])
        ''p1_''))
   = [(''p1_mdIntro'', ''mdIntro'', ''# Hello'', ''# Hello''),
      (''p1_sections_0_mdMain'', ''mdMain'', ''Body'', ''Body'')]"
proof -
  let ?n = "\<lparr>node_id = ''p1'', parent = Some ''f1'', internal_type = ''PagesJson'',
           internal_mediaType = None, node_entries = []\<rparr>"
  let ?obj = "JObject [(''title'', JString ''Home''),
                  (''mdIntro'', JString ''# Hello''),
                  (''sections'', JArray [JObject [(''type'', JString ''text''), (''mdMain'', JString ''Body'')]]),
                  (''mdCount'', JNumber 3)]"
  have w: "wf_json ?obj"
    by simp
  have a: "md_fields (JArray [JObject [(''type'', JString ''text''), (''mdMain'', JString ''Body'')]])
      = [([''0'', ''mdMain''], ''Body'')]"
    by (subst md_fields_entries)
       (simp add: md_fields_JObject_Cons md_fields_JObject_Nil startsWith_def toString_0)
  have f: "md_fields ?obj = [([''mdIntro''], ''# Hello''), ([''sections'', ''0'', ''mdMain''], ''Body'')]"
    by (simp add: md_fields_JObject_Cons md_fields_JObject_Nil startsWith_def a)
  from markdown_fields_extracted_once [OF w, of identity_host ?n "''p1_''"]
  have "md_nodes_of (createFieldsForObject identity_host ?n ?obj ''p1_'') =
           map (\<lambda>(ks, s). mdNode identity_host ?n (path_of ''p1_'' ks) (last ks) s) (md_fields ?obj)"
    by blast
  then show ?thesis
    by (simp add: f mdNode_def identity_host_def)
qed

text \<open>
  C9: a markdown field whose value is the empty string still gets its node: the test is on
  the key and on the type of the value, never on the value itself.
\<close>

theorem empty_markdown_field_is_extracted:
  assumes "md_field_at obj ks ''''"
  shows "mdNode a n (path_of pth ks) (last ks) '''' \<in> set (md_nodes_of (createFieldsForObject a n obj pth))
       \<and> md_content (mdNode a n (path_of pth ks) (last ks) '''') = ''''
       \<and> (\<forall>key. startsWith key ''md'' \<longrightarrow> md_field_at (JObject [(key, JString '''')]) [key] '''')"
proof -
  from assms have "(ks, '''') \<in> set (md_fields obj)"
    by (simp add: md_fields_iff_md_field_at)
  then have "mdNode a n (path_of pth ks) (last ks) '''' \<in> set (md_nodes_of (createFieldsForObject a n obj pth))"
    unfolding md_nodes_of_createFieldsForObject by force
  then show ?thesis
    by (simp add: mdNode_def md_field_at_def)
qed

theorem empty_markdown_field_is_extracted_witness:
  "md_nodes_of (createFieldsForObject identity_host
        \<lparr>node_id = ''p1'', parent = Some ''f1'', internal_type = ''PagesJson'',
           internal_mediaType = None, node_entries = []\<rparr>
        (JObject [(''mdBody'', JString '''')]) ''p1_'')
   = [mdNode identity_host
        \<lparr>node_id = ''p1'', parent = Some ''f1'', internal_type = ''PagesJson'',
           internal_mediaType = None, node_entries = []\<rparr> ''p1_mdBody'' ''mdBody'' '''']"
proof -
  let ?n = "\<lparr>node_id = ''p1'', parent = Some ''f1'', internal_type = ''PagesJson'',
           internal_mediaType = None, node_entries = []\<rparr>"
  have f: "md_field_at (JObject [(''mdBody'', JString '''')]) [''mdBody''] ''''"
    by (simp add: md_field_at_def startsWith_def)
  have l: "length (md_nodes_of (createFieldsForObject identity_host ?n (JObject [(''mdBody'', JString '''')]) ''p1_'')) = 1"
    by (simp add: md_nodes_of_createFieldsForObject md_fields_JObject_Cons md_fields_JObject_Nil startsWith_def)
  from empty_markdown_field_is_extracted [OF f, of identity_host ?n "''p1_''"]
  have "mdNode identity_host ?n ''p1_mdBody'' ''mdBody'' ''''
      \<in> set (md_nodes_of (createFieldsForObject identity_host ?n (JObject [(''mdBody'', JString '''')]) ''p1_''))"
    by simp
  with l show ?thesis
    by (cases "md_nodes_of (createFieldsForObject identity_host ?n (JObject [(''mdBody'', JString '''')]) ''p1_'')") auto
qed

text \<open>
  C2, as stated, fails: the path is the keys joined by \<^verbatim>\<open>_\<close>, and a key may hold that
  character. The key \<^verbatim>\<open>a_b\<close> at one depth and the keys \<^verbatim>\<open>a\<close>, \<^verbatim>\<open>b\<close> at two depths lead to
  the same path, hence to the same identifier, even with an injective \<^verbatim>\<open>createNodeId\<close>.
\<close>

theorem colliding_ids_for_distinct_key_paths:
  "map fst (md_fields (JObject
      [(''a_b'', JObject [(''mdText'', JString ''one'')]),
       (''a'', JObject [(''b'', JObject [(''mdText'', JString ''two'')])])]))
     = [[''a_b'', ''mdText''], [''a'', ''b'', ''mdText'']]
   \<and> map md_id (md_nodes_of (snd (onCreateNode identity_host
      (Some \<lparr>node_id = ''p1'', parent = Some ''f1'', internal_type = ''PagesJson'',
             internal_mediaType = None,
             node_entries =
               [(''a_b'', JObject [(''mdText'', JString ''one'')]),
                (''a'', JObject [(''b'', JObject [(''mdText'', JString ''two'')])])]\<rparr>) True)))
     = [''p1_a_b_mdText'', ''p1_a_b_mdText'']"
proof -
  have f: "md_fields (JObject
      [(''a_b'', JObject [(''mdText'', JString ''one'')]),
       (''a'', JObject [(''b'', JObject [(''mdText'', JString ''two'')])])])
     = [([''a_b'', ''mdText''], ''one''), ([''a'', ''b'', ''mdText''], ''two'')]"
    by (simp add: md_fields_JObject_Cons md_fields_JObject_Nil startsWith_def)
  show ?thesis
    by (simp add: onCreateNode_md_nodes f mdNode_def identity_host_def)
qed

text \<open>
  C2, as amended: when no key of the payload holds the separator \<^verbatim>\<open>_\<close> and
  \<^verbatim>\<open>createNodeId\<close> is injective, two distinct key paths never get the same identifier: the
  identifiers of the markdown nodes of one node are pairwise distinct.
\<close>

theorem distinct_ids_for_separator_free_keys:
  assumes "wf_json obj" and "sep_free obj" and "inj (createNodeId a)"
  shows "distinct (map md_id (md_nodes_of (createFieldsForObject a n obj pth)))
       \<and> map md_id (md_nodes_of (createFieldsForObject a n obj pth)) =
           map (\<lambda>(ks, s). createNodeId a (path_of pth ks)) (md_fields obj)
       \<and> (\<forall>ks s ks' s'. (ks, s) \<in> set (md_fields obj) \<and> (ks', s') \<in> set (md_fields obj) \<and> ks \<noteq> ks' \<longrightarrow>
            createNodeId a (path_of pth ks) \<noteq> createNodeId a (path_of pth ks'))"
proof (intro conjI allI impI)
  show ids: "map md_id (md_nodes_of (createFieldsForObject a n obj pth)) =
           map (\<lambda>(ks, s). createNodeId a (path_of pth ks)) (md_fields obj)"
    by (simp add: md_nodes_of_createFieldsForObject mdNode_def case_prod_beta comp_def)
  show "distinct (map md_id (md_nodes_of (createFieldsForObject a n obj pth)))"
    unfolding ids using assms by (rule md_ids_distinct)
next
  fix ks s ks' s'
  assume h: "(ks, s) \<in> set (md_fields obj) \<and> (ks', s') \<in> set (md_fields obj) \<and> ks \<noteq> ks'"
  show "createNodeId a (path_of pth ks) \<noteq> createNodeId a (path_of pth ks')"
  proof
    assume "createNodeId a (path_of pth ks) = createNodeId a (path_of pth ks')"
    with assms(3) have "path_of pth ks = path_of pth ks'"
      by (simp add: inj_eq)
    with h have "ks = ks'"
      using md_fields_nonempty [of ks s obj] md_fields_nonempty [of ks' s' obj]
        md_fields_sep_free [OF assms(2), of ks s] md_fields_sep_free [OF assms(2), of ks' s']
      by (intro path_of_inj) simp_all
    with h show False by simp
  qed
qed

theorem distinct_ids_for_separator_free_keys_witness:
  "distinct (map md_id (md_nodes_of (createFieldsForObject identity_host
      \<lparr>node_id = ''p1'', parent = Some ''f1'', internal_type = ''PagesJson'',
         internal_mediaType = None, node_entries = []\<rparr>
      (JObject [(''ab'', JObject [(''mdText'', JString ''one'')]),
                (''a'', JObject [(''b'', JObject [(''mdText'', JString ''two'')])])])
      ''p1_'')))"
proof -
  have w: "wf_json (JObject [(''ab'', JObject [(''mdText'', JString ''one'')]),
                (''a'', JObject [(''b'', JObject [(''mdText'', JString ''two'')])])])"
    by simp
  have s: "sep_free (JObject [(''ab'', JObject [(''mdText'', JString ''one'')]),
                (''a'', JObject [(''b'', JObject [(''mdText'', JString ''two'')])])])"
    by simp
  have i: "inj (createNodeId identity_host)"
    by (simp add: identity_host_def inj_def)
  from distinct_ids_for_separator_free_keys [OF w s i] show ?thesis
    by blast
qed

lemma bounded_digest_not_injective:
  fixes d :: "string \<Rightarrow> string"
  assumes "\<forall>s. length (d s) \<le> w"
  shows "\<not> inj d"
proof
  assume "inj d"
  have "range d \<subseteq> {xs. set xs \<subseteq> UNIV \<and> length xs \<le> w}"
    using assms by auto
  moreover have "finite {xs :: string. set xs \<subseteq> UNIV \<and> length xs \<le> w}"
    by (rule finite_lists_length_le) simp
  ultimately have "finite (range d)"
    by (rule finite_subset)
  then have "finite (UNIV :: string set)"
    using \<open>inj d\<close> by (rule finite_imageD)
  then show False
    by (simp add: infinite_UNIV_listI)
qed

text \<open>
  C6, as stated, fails in its second half: the digest is whatever \<^verbatim>\<open>createContentDigest\<close>
  returns for the content, and a digest of bounded width is never injective
  (\<open>bounded_digest_not_injective\<close>). With a one-byte checksum as digest, two payloads that
  differ only in the content of one markdown field get the same digest for that field.
\<close>

theorem equal_digests_for_different_content:
  "map md_content (md_nodes_of (createFieldsForObject checksum_host
      \<lparr>node_id = ''p1'', parent = Some ''f1'', internal_type = ''PagesJson'',
         internal_mediaType = None, node_entries = []\<rparr>
      (JObject [(''title'', JString ''Home''), (''mdBody'', JString ''ab'')]) ''p1_''))
   \<noteq> map md_content (md_nodes_of (createFieldsForObject checksum_host
      \<lparr>node_id = ''p1'', parent = Some ''f1'', internal_type = ''PagesJson'',
         internal_mediaType = None, node_entries = []\<rparr>
      (JObject [(''title'', JString ''Home''), (''mdBody'', JString ''ba'')]) ''p1_''))
   \<and> map md_contentDigest (md_nodes_of (createFieldsForObject checksum_host
      \<lparr>node_id = ''p1'', parent = Some ''f1'', internal_type = ''PagesJson'',
         internal_mediaType = None, node_entries = []\<rparr>
      (JObject [(''title'', JString ''Home''), (''mdBody'', JString ''ab'')]) ''p1_''))
   = map md_contentDigest (md_nodes_of (createFieldsForObject checksum_host
      \<lparr>node_id = ''p1'', parent = Some ''f1'', internal_type = ''PagesJson'',
         internal_mediaType = None, node_entries = []\<rparr>
      (JObject [(''title'', JString ''Home''), (''mdBody'', JString ''ba'')]) ''p1_''))"
  by (simp add: md_nodes_of_createFieldsForObject md_fields_JObject_Cons md_fields_JObject_Nil
      startsWith_def mdNode_def checksum_host_def checksum_def identity_host_def)

text \<open>
  C6, as amended: the digest of a markdown node is \<^verbatim>\<open>createContentDigest\<close> of its content
  and of nothing else, so equal contents give equal digests, in any two payloads; the
  digests of two nodes differ exactly when \<^verbatim>\<open>createContentDigest\<close> tells their contents
  apart, which it does for all different contents when it is injective.
\<close>

theorem digest_is_function_of_content:
  assumes "m \<in> set (md_nodes_of (createFieldsForObject a n obj pth))"
    and "m' \<in> set (md_nodes_of (createFieldsForObject a n' obj' pth'))"
  shows "md_contentDigest m = createContentDigest a (md_content m)
       \<and> (md_content m = md_content m' \<longrightarrow> md_contentDigest m = md_contentDigest m')
       \<and> (md_contentDigest m \<noteq> md_contentDigest m' \<longleftrightarrow>
            createContentDigest a (md_content m) \<noteq> createContentDigest a (md_content m'))
       \<and> (inj (createContentDigest a) \<and> md_content m \<noteq> md_content m' \<longrightarrow>
            md_contentDigest m \<noteq> md_contentDigest m')"
proof -
  have d: "md_contentDigest x = createContentDigest a (md_content x)"
    if "x \<in> set (md_nodes_of (createFieldsForObject a k v p))" for x k v p
    using that by (auto simp: md_nodes_of_createFieldsForObject mdNode_def)
  from d [OF assms(1)] d [OF assms(2)] show ?thesis
    by (auto simp: inj_eq)
qed

theorem digest_is_function_of_content_witness:
  "map md_contentDigest (md_nodes_of (createFieldsForObject identity_host
      \<lparr>node_id = ''p1'', parent = Some ''f1'', internal_type = ''PagesJson'',
         internal_mediaType = None, node_entries = []\<rparr>
      (JObject [(''mdBody'', JString ''ab'')]) ''p1_'')) = [''ab'']"
proof -
  let ?n = "\<lparr>node_id = ''p1'', parent = Some ''f1'', internal_type = ''PagesJson'',
         internal_mediaType = None, node_entries = []\<rparr>"
  let ?ns = "md_nodes_of (createFieldsForObject identity_host ?n (JObject [(''mdBody'', JString ''ab'')]) ''p1_'')"
  have e: "?ns = [mdNode identity_host ?n ''p1_mdBody'' ''mdBody'' ''ab'']"
    by (simp add: md_nodes_of_createFieldsForObject md_fields_JObject_Cons md_fields_JObject_Nil
        startsWith_def)
  then have m: "mdNode identity_host ?n ''p1_mdBody'' ''mdBody'' ''ab'' \<in> set ?ns"
    by simp
  from digest_is_function_of_content [OF m m]
  have "md_contentDigest (mdNode identity_host ?n ''p1_mdBody'' ''mdBody'' ''ab'')
      = createContentDigest identity_host (md_content (mdNode identity_host ?n ''p1_mdBody'' ''mdBody'' ''ab''))"
    by blast
  then have "md_contentDigest (mdNode identity_host ?n ''p1_mdBody'' ''mdBody'' ''ab'') = ''ab''"
    by (simp add: mdNode_def identity_host_def)
  with e show ?thesis
    by simp
qed

end
